theory Spec2Isabelle
  imports Complex_Main
begin


section \<open>Board state (board.js)\<close>

text \<open>
  The board is a two-dimensional array of numbers, indexed \<open>[row][col]\<close>: 0 is an
  empty cell, 1 is Player 1 (Red), 2 is Player 2 / AI (Yellow). Row 0 is the top and
  row \<open>ROWS - 1\<close> the bottom. Rows, columns and players are JavaScript numbers; they
  are integers here, so that \<open>-1\<close> (the "full" sentinel) and the negative coordinates
  that \<open>checkWin\<close> computes before its bounds check are ordinary values.
\<close>

type_synonym board = "int list list"

definition ROWS :: int where "ROWS = 6"
definition COLS :: int where "COLS = 7"
definition WIN_LENGTH :: int where "WIN_LENGTH = 4"

text \<open>\<open>board[row][col]\<close>, read only where the source has checked the indices.\<close>

definition cell :: "board \<Rightarrow> int \<Rightarrow> int \<Rightarrow> int" where
  "cell board r c = board ! nat r ! nat c"

text \<open>The shape every function of board.js takes for granted: 6 rows of 7 cells.\<close>

definition wf_board :: "board \<Rightarrow> bool" where
  "wf_board board \<longleftrightarrow> int (length board) = ROWS \<and> list_all (\<lambda>cells. int (length cells) = COLS) board"

definition createBoard :: board where
  "createBoard = replicate (nat ROWS) (replicate (nat COLS) 0)"

text \<open>\<open>board.map(row => [...row])\<close>: a copy, which for immutable values is the board itself.\<close>

definition cloneBoard :: "board \<Rightarrow> board" where
  "cloneBoard board = map (\<lambda>cells. map (\<lambda>x. x) cells) board"

text \<open>
  The loop \<open>for (row = ROWS - 1; row >= 0; row--)\<close> of \<open>getLowestEmptyRow\<close>;
  the argument \<open>n\<close> is \<open>row + 1\<close>.
\<close>

fun lowest_from :: "board \<Rightarrow> int \<Rightarrow> nat \<Rightarrow> int" where
  "lowest_from board col 0 = -1"
| "lowest_from board col (Suc n) =
     (if cell board (int n) col = 0 then int n else lowest_from board col n)"

definition getLowestEmptyRow :: "board \<Rightarrow> int \<Rightarrow> int" where
  "getLowestEmptyRow board col =
     (if col < 0 \<or> col \<ge> COLS then -1 else lowest_from board col (nat ROWS))"

record drop_result =
  success :: bool
  row :: int

text \<open>
  \<open>dropDisc\<close> mutates the board it is given; the model returns the board after the
  call together with the result object.
\<close>

definition dropDisc :: "board \<Rightarrow> int \<Rightarrow> int \<Rightarrow> board \<times> drop_result" where
  "dropDisc board col player =
     (let r = getLowestEmptyRow board col in
      if r = -1 then (board, \<lparr>success = False, row = -1\<rparr>)
      else (board[nat r := (board ! nat r)[nat col := player]], \<lparr>success = True, row = r\<rparr>))"

text \<open>
  \<open>board[0][col] !== 0\<close>. The column is not checked: outside \<open>0..COLS-1\<close> the read
  gives \<open>undefined\<close>, which is not 0, so the column counts as full.
\<close>

definition isColumnFull :: "board \<Rightarrow> int \<Rightarrow> bool" where
  "isColumnFull board col = (if 0 \<le> col \<and> col < COLS then cell board 0 col \<noteq> 0 else True)"

definition isBoardFull :: "board \<Rightarrow> bool" where
  "isBoardFull board = list_all (\<lambda>x. x \<noteq> 0) (board ! 0)"

text \<open>
  The no-floating-token invariant: in a column, every cell below an occupied cell is
  occupied. \<open>column_no_floating\<close> is the invariant of one column.
\<close>

definition column_no_floating :: "board \<Rightarrow> int \<Rightarrow> bool" where
  "column_no_floating board c \<longleftrightarrow>
     (\<forall>r\<in>{0..<ROWS}. \<forall>r'\<in>{r<..<ROWS}. cell board r c \<noteq> 0 \<longrightarrow> cell board r' c \<noteq> 0)"

definition no_floating :: "board \<Rightarrow> bool" where
  "no_floating board \<longleftrightarrow> (\<forall>c\<in>{0..<COLS}. column_no_floating board c)"

text \<open>The boards obtained from \<open>createBoard()\<close> by successful calls of \<open>dropDisc\<close>.\<close>

inductive reachable :: "board \<Rightarrow> bool" where
  start: "reachable createBoard"
| drop: "reachable board \<Longrightarrow> success (snd (dropDisc board c s)) \<Longrightarrow>
         reachable (fst (dropDisc board c s))"

text \<open>A board with a token at row 4 of column 0 and nothing under it.\<close>

definition floating_board :: board where
  "floating_board =
    [[0, 0, 0, 0, 0, 0, 0],
     [0, 0, 0, 0, 0, 0, 0],
     [0, 0, 0, 0, 0, 0, 0],
     [0, 0, 0, 0, 0, 0, 0],
     [1, 0, 0, 0, 0, 0, 0],
     [0, 0, 0, 0, 0, 0, 0]]"

subsection \<open>Win detection\<close>

record win_result =
  win :: bool
  line :: "(int \<times> int) list"

text \<open>The direction table of \<open>checkWin\<close>: right, down, down-right, down-left.\<close>

definition directions :: "(int \<times> int) list" where
  "directions = [(0, 1), (1, 0), (1, 1), (1, -1)]"

text \<open>
  The forward loop \<open>for (i = 1; i < WIN_LENGTH; i++)\<close> over the remaining values of
  \<open>i\<close>; the state is the pair of \<open>line\<close> (here \<open>lin\<close>) and \<open>count\<close>. Leaving the board or meeting a
  cell that is not the player's is the \<open>break\<close>.
\<close>

fun forward_loop ::
  "board \<Rightarrow> int \<Rightarrow> int \<Rightarrow> int \<Rightarrow> int \<Rightarrow> int \<Rightarrow> int list \<Rightarrow>
   (int \<times> int) list \<times> int \<Rightarrow> (int \<times> int) list \<times> int" where
  "forward_loop board startRow startCol dRow dCol player [] st = st"
| "forward_loop board startRow startCol dRow dCol player (i # rest) (lin, count) =
     (let r = startRow + dRow * i; c = startCol + dCol * i in
      if r < 0 \<or> r \<ge> ROWS \<or> c < 0 \<or> c \<ge> COLS then (lin, count)
      else if cell board r c = player
        then forward_loop board startRow startCol dRow dCol player rest (lin @ [(r, c)], count + 1)
      else (lin, count))"

text \<open>The backward loop: the same walk along the opposite delta, with \<open>line.unshift\<close>.\<close>

fun backward_loop ::
  "board \<Rightarrow> int \<Rightarrow> int \<Rightarrow> int \<Rightarrow> int \<Rightarrow> int \<Rightarrow> int list \<Rightarrow>
   (int \<times> int) list \<times> int \<Rightarrow> (int \<times> int) list \<times> int" where
  "backward_loop board startRow startCol dRow dCol player [] st = st"
| "backward_loop board startRow startCol dRow dCol player (i # rest) (lin, count) =
     (let r = startRow - dRow * i; c = startCol - dCol * i in
      if r < 0 \<or> r \<ge> ROWS \<or> c < 0 \<or> c \<ge> COLS then (lin, count)
      else if cell board r c = player
        then backward_loop board startRow startCol dRow dCol player rest ((r, c) # lin, count + 1)
      else (lin, count))"

text \<open>
  One pass of the loop over the directions: the line and the count after the forward
  walk and, when that is short of \<open>WIN_LENGTH\<close>, the backward walk.
\<close>

definition check_direction ::
  "board \<Rightarrow> int \<Rightarrow> int \<Rightarrow> int \<Rightarrow> int \<times> int \<Rightarrow> (int \<times> int) list \<times> int" where
  "check_direction board startRow startCol player d =
     (let st = forward_loop board startRow startCol (fst d) (snd d) player [1..WIN_LENGTH - 1]
                 ([(startRow, startCol)], 1)
      in if snd st < WIN_LENGTH
         then backward_loop board startRow startCol (fst d) (snd d) player [1..WIN_LENGTH - 1] st
         else st)"

fun check_directions ::
  "board \<Rightarrow> int \<Rightarrow> int \<Rightarrow> int \<Rightarrow> (int \<times> int) list \<Rightarrow> win_result" where
  "check_directions board startRow startCol player [] = \<lparr>win = False, line = []\<rparr>"
| "check_directions board startRow startCol player (d # ds) =
     (let st = check_direction board startRow startCol player d in
      if snd st \<ge> WIN_LENGTH then \<lparr>win = True, line = take (nat WIN_LENGTH) (fst st)\<rparr>
      else check_directions board startRow startCol player ds)"

definition checkWin :: "board \<Rightarrow> int \<Rightarrow> int \<Rightarrow> int \<Rightarrow> win_result" where
  "checkWin board startRow startCol player =
     check_directions board startRow startCol player directions"

text \<open>The columns \<open>0..COLS-1\<close> that are not full, in ascending order.\<close>

definition getAvailableMoves :: "board \<Rightarrow> int list" where
  "getAvailableMoves board = filter (\<lambda>col. \<not> isColumnFull board col) [0..COLS - 1]"

text \<open>\<open>player === 1 ? 2 : 1\<close>, as evaluateBoard and the AI compute the other side.\<close>

definition opponent_of :: "int \<Rightarrow> int" where
  "opponent_of player = (if player = 1 then 2 else 1)"

text \<open>The board with every Red cell turned Yellow and every Yellow cell turned Red.\<close>

definition swap_cell :: "int \<Rightarrow> int" where
  "swap_cell x = (if x = 1 then 2 else if x = 2 then 1 else x)"

definition swap_sides :: "board \<Rightarrow> board" where
  "swap_sides board = map (map swap_cell) board"

text \<open>A sequence of \<open>dropDisc\<close> calls on one board, each a pair of column and player.\<close>

definition drop_all :: "board \<Rightarrow> (int \<times> int) list \<Rightarrow> board" where
  "drop_all board moves = fold (\<lambda>m b. fst (dropDisc b (fst m) (snd m))) moves board"

section \<open>Position evaluator (evaluateBoard in board.js)\<close>

text \<open>
  The nested loops \<open>for row ... for col ...\<close> that look for a finished game, over the
  cells still to visit (in row-major order). This scan is written twice in the source,
  in \<open>evaluateBoard\<close> and in \<open>minimax\<close>; both return at the first cell that belongs
  to the player and anchors a win of the player, or belongs to the opponent and anchors
  a win of the opponent.
\<close>

datatype scan_result = PlayerWins | OpponentWins | NoWin

fun win_scan :: "board \<Rightarrow> int \<Rightarrow> int \<Rightarrow> (int \<times> int) list \<Rightarrow> scan_result" where
  "win_scan board player opponent [] = NoWin"
| "win_scan board player opponent ((r, c) # rest) =
     (if cell board r c = player \<and> win (checkWin board r c player) then PlayerWins
      else if cell board r c = opponent \<and> win (checkWin board r c opponent) then OpponentWins
      else win_scan board player opponent rest)"

text \<open>The body of the centre-column loop: \<open>board[row][3]\<close> adds or subtracts 3.\<close>

definition center_step :: "board \<Rightarrow> int \<Rightarrow> int \<Rightarrow> int \<Rightarrow> int \<Rightarrow> int" where
  "center_step board player opponent r score =
     (if cell board r 3 = player then score + 3
      else if cell board r 3 = opponent then score - 3
      else score)"

text \<open>
  The body of the four loops over adjacent pairs: the cell and its neighbour at
  \<open>(row + dRow, col + dCol)\<close>; a pair of the player adds 2, a pair of the opponent
  subtracts 2.
\<close>

definition pair_step ::
  "board \<Rightarrow> int \<Rightarrow> int \<Rightarrow> int \<Rightarrow> int \<Rightarrow> int \<times> int \<Rightarrow> int \<Rightarrow> int" where
  "pair_step board player opponent dRow dCol rc score =
     (let r = fst rc; c = snd rc;
          score = (if cell board r c = player \<and> cell board (r + dRow) (c + dCol) = player
                   then score + 2 else score);
          score = (if cell board r c = opponent \<and> cell board (r + dRow) (c + dCol) = opponent
                   then score - 2 else score)
      in score)"

definition evaluateBoard :: "board \<Rightarrow> int \<Rightarrow> int" where
  "evaluateBoard board player =
     (let opponent = opponent_of player in
      case win_scan board player opponent (List.product [0..ROWS - 1] [0..COLS - 1]) of
        PlayerWins \<Rightarrow> 10000
      | OpponentWins \<Rightarrow> -10000
      | NoWin \<Rightarrow>
          (let score = 0;
               score = fold (center_step board player opponent) [0..ROWS - 1] score;
               score = fold (pair_step board player opponent 0 1)
                         (List.product [0..ROWS - 1] [0..COLS - 2]) score;
               score = fold (pair_step board player opponent 1 0)
                         (List.product [0..ROWS - 2] [0..COLS - 1]) score;
               score = fold (pair_step board player opponent 1 1)
                         (List.product [0..ROWS - 2] [0..COLS - 2]) score;
               score = fold (pair_step board player opponent 1 (-1))
                         (List.product [0..ROWS - 2] [1..COLS - 1]) score
           in score))"

text \<open>The outcome of the scan with the roles of player and opponent exchanged.\<close>

fun flip_scan :: "scan_result \<Rightarrow> scan_result" where
  "flip_scan PlayerWins = OpponentWins"
| "flip_scan OpponentWins = PlayerWins"
| "flip_scan NoWin = NoWin"

text \<open>A position after six moves of each side, without a line of four; Red is to move.\<close>

definition midgame_board :: board where
  "midgame_board =
    [[0, 0, 0, 0, 0, 0, 0],
     [0, 0, 0, 0, 0, 0, 0],
     [0, 0, 0, 2, 0, 0, 0],
     [0, 0, 1, 1, 0, 0, 0],
     [0, 2, 1, 1, 2, 0, 0],
     [0, 1, 2, 1, 2, 2, 0]]"

section \<open>AI opponent (ai.js)\<close>

text \<open>
  \<open>Math.random()\<close> is the one input of the AI that is not an argument in the source;
  here it is the parameter \<open>rnd\<close>, a real number that the caller draws from the
  interval from 0 (inclusive) to 1 (exclusive).
  \<open>getEasyMove\<close> reads \<open>availableMoves[Math.floor(rnd * availableMoves.length)]\<close>;
  for a non-empty list and such a \<open>rnd\<close> the index is inside the list.
\<close>

definition getEasyMove :: "int list \<Rightarrow> real \<Rightarrow> int" where
  "getEasyMove availableMoves rnd =
     (let randomIndex = \<lfloor>rnd * real (length availableMoves)\<rfloor>
      in availableMoves ! nat randomIndex)"

text \<open>
  The test made for each column by the first two loops of \<open>getMediumMove\<close>: drop a
  disc of the player on a copy of the board and ask \<open>checkWin\<close> at the landing cell.
\<close>

definition wins_by_drop :: "board \<Rightarrow> int \<Rightarrow> int \<Rightarrow> bool" where
  "wins_by_drop board col player =
     (let dropped = dropDisc (cloneBoard board) col player;
          testBoard = fst dropped; result = snd dropped
      in if success result then win (checkWin testBoard (row result) col player) else False)"

definition centerOrder :: "int list" where
  "centerOrder = [3, 2, 4, 1, 5, 0, 6]"

text \<open>
  Each \<open>for\<close> loop of \<open>getMediumMove\<close> returns the first column that passes its
  test, which is \<open>find\<close>; when all three loops finish, the random move is the fallback.
\<close>

definition getMediumMove :: "board \<Rightarrow> int list \<Rightarrow> int \<Rightarrow> real \<Rightarrow> int" where
  "getMediumMove board availableMoves aiPlayer rnd =
     (let opponent = opponent_of aiPlayer in
      case find (\<lambda>col. wins_by_drop board col aiPlayer) availableMoves of
        Some col \<Rightarrow> col
      | None \<Rightarrow>
          (case find (\<lambda>col. wins_by_drop board col opponent) availableMoves of
             Some col \<Rightarrow> col
           | None \<Rightarrow>
               (case find (\<lambda>col. col \<in> set availableMoves) centerOrder of
                  Some col \<Rightarrow> col
                | None \<Rightarrow> getEasyMove availableMoves rnd)))"

text \<open>
  Scores of the search are JavaScript numbers that start from \<open>-Infinity\<close> and
  \<open>Infinity\<close>; every finite score is an integer.
\<close>

datatype score = NegInf | Fin int | PosInf

fun score_le :: "score \<Rightarrow> score \<Rightarrow> bool" where
  "score_le NegInf b = True"
| "score_le a PosInf = True"
| "score_le (Fin a) (Fin b) = (a \<le> b)"
| "score_le a b = False"

definition score_less :: "score \<Rightarrow> score \<Rightarrow> bool" where
  "score_less a b = (\<not> score_le b a)"

definition score_max :: "score \<Rightarrow> score \<Rightarrow> score" where
  "score_max a b = (if score_le a b then b else a)"

definition score_min :: "score \<Rightarrow> score \<Rightarrow> score" where
  "score_min a b = (if score_le a b then a else b)"

text \<open>
  \<open>minimax\<close> with its two loops over the available moves. The remaining depth is a
  natural number: the search starts at 4 and every call either stops at \<open>depth === 0\<close>
  or recurses with \<open>depth - 1\<close>. \<open>max_loop\<close> and \<open>min_loop\<close> are the \<open>for\<close> loops of
  the maximizing and the minimizing branch over the columns still to try; their
  argument \<open>d\<close> is \<open>depth - 1\<close>, and leaving the loop at \<open>beta <= alpha\<close> is the
  \<open>break\<close>. The recursion ends because a call of \<open>minimax\<close> lowers the depth and a
  loop iteration shortens the list of columns.
\<close>

function minimax :: "board \<Rightarrow> nat \<Rightarrow> bool \<Rightarrow> int \<Rightarrow> int \<Rightarrow> score \<Rightarrow> score \<Rightarrow> score"
  and max_loop :: "board \<Rightarrow> nat \<Rightarrow> int \<Rightarrow> int \<Rightarrow> int list \<Rightarrow> score \<Rightarrow> score \<Rightarrow> score \<Rightarrow> score"
  and min_loop :: "board \<Rightarrow> nat \<Rightarrow> int \<Rightarrow> int \<Rightarrow> int list \<Rightarrow> score \<Rightarrow> score \<Rightarrow> score \<Rightarrow> score"
where
  "minimax board 0 isMaximizing aiPlayer opponent alpha beta =
     Fin (evaluateBoard board aiPlayer)"
| "minimax board (Suc d) isMaximizing aiPlayer opponent alpha beta =
     (case win_scan board aiPlayer opponent (List.product [0..ROWS - 1] [0..COLS - 1]) of
        PlayerWins \<Rightarrow> Fin (10000 + int (Suc d))
      | OpponentWins \<Rightarrow> Fin (- 10000 - int (Suc d))
      | NoWin \<Rightarrow>
          (let availableMoves = getAvailableMoves board in
           if length availableMoves = 0 then Fin 0
           else if isMaximizing
             then max_loop board d aiPlayer opponent availableMoves NegInf alpha beta
             else min_loop board d aiPlayer opponent availableMoves PosInf alpha beta))"
| "max_loop board d aiPlayer opponent [] maxScore alpha beta = maxScore"
| "max_loop board d aiPlayer opponent (col # rest) maxScore alpha beta =
     (let dropped = dropDisc (cloneBoard board) col aiPlayer in
      if \<not> success (snd dropped)
        then max_loop board d aiPlayer opponent rest maxScore alpha beta
      else
        (let score = minimax (fst dropped) d False aiPlayer opponent alpha beta;
             maxScore = score_max maxScore score;
             alpha = score_max alpha score
         in if score_le beta alpha then maxScore
            else max_loop board d aiPlayer opponent rest maxScore alpha beta))"
| "min_loop board d aiPlayer opponent [] minScore alpha beta = minScore"
| "min_loop board d aiPlayer opponent (col # rest) minScore alpha beta =
     (let dropped = dropDisc (cloneBoard board) col opponent in
      if \<not> success (snd dropped)
        then min_loop board d aiPlayer opponent rest minScore alpha beta
      else
        (let score = minimax (fst dropped) d True aiPlayer opponent alpha beta;
             minScore = score_min minScore score;
             beta = score_min beta score
         in if score_le beta alpha then minScore
            else min_loop board d aiPlayer opponent rest minScore alpha beta))"
  by pat_completeness auto
termination
  by (relation "measures [\<lambda>x. case x of Inl (b, n, r) \<Rightarrow> 2 * n
                             | Inr (Inl (b, d, r)) \<Rightarrow> 2 * d + 1
                             | Inr (Inr (b, d, r)) \<Rightarrow> 2 * d + 1,
                          \<lambda>x. case x of Inl (b, n, r) \<Rightarrow> 0
                             | Inr (Inl (b, d, a, opp, moves, r)) \<Rightarrow> length moves
                             | Inr (Inr (b, d, a, opp, moves, r)) \<Rightarrow> length moves]") auto

text \<open>
  The loop of \<open>getHardMove\<close> over the available moves; the state is the pair of
  \<open>bestScore\<close> and \<open>bestMove\<close>.
\<close>

fun hard_loop ::
  "board \<Rightarrow> int \<Rightarrow> int \<Rightarrow> nat \<Rightarrow> int list \<Rightarrow> score \<times> int \<Rightarrow> score \<times> int" where
  "hard_loop board aiPlayer opponent depth [] best = best"
| "hard_loop board aiPlayer opponent depth (col # rest) (bestScore, bestMove) =
     (let dropped = dropDisc (cloneBoard board) col aiPlayer in
      if \<not> success (snd dropped)
        then hard_loop board aiPlayer opponent depth rest (bestScore, bestMove)
      else
        (let score = minimax (fst dropped) (depth - 1) False aiPlayer opponent NegInf PosInf
         in if score_less bestScore score
            then hard_loop board aiPlayer opponent depth rest (score, col)
            else hard_loop board aiPlayer opponent depth rest (bestScore, bestMove)))"

text \<open>
  \<open>getHardMove\<close>; its only call leaves \<open>depth\<close> at the default 5. \<open>bestMove\<close> starts
  at \<open>availableMoves[0]\<close>, and the function is called with a non-empty list only.
\<close>

definition getHardMove :: "board \<Rightarrow> int list \<Rightarrow> int \<Rightarrow> nat \<Rightarrow> int" where
  "getHardMove board availableMoves aiPlayer depth =
     (let opponent = opponent_of aiPlayer in
      snd (hard_loop board aiPlayer opponent depth availableMoves (NegInf, availableMoves ! 0)))"

definition getAIMove :: "board \<Rightarrow> string \<Rightarrow> int \<Rightarrow> real \<Rightarrow> int" where
  "getAIMove board difficulty aiPlayer rnd =
     (let availableMoves = getAvailableMoves board in
      if length availableMoves = 0 then -1
      else if difficulty = ''easy'' then getEasyMove availableMoves rnd
      else if difficulty = ''medium'' then getMediumMove board availableMoves aiPlayer rnd
      else if difficulty = ''hard'' then getHardMove board availableMoves aiPlayer 5
      else getEasyMove availableMoves rnd)"

text \<open>
  The legal columns in which a disc of the player wins at once, in ascending order:
  the columns that pass the test of the first (or, for the opponent, the second) loop
  of \<open>getMediumMove\<close>.
\<close>

definition winning_columns :: "board \<Rightarrow> int \<Rightarrow> int list" where
  "winning_columns board player =
     filter (\<lambda>col. wins_by_drop board col player) (getAvailableMoves board)"

text \<open>Red holds (5,0), (5,1), (5,2) and Yellow two discs in column 6; Yellow is to move.\<close>

definition three_in_row_board :: board where
  "three_in_row_board = drop_all createBoard [(0, 1), (6, 2), (1, 1), (6, 2), (2, 1)]"

text \<open>
  Red holds (5,0), (5,1), (5,2) and (5,5), Yellow three discs in column 6; Yellow is
  to move, and can either win in column 6 or block column 3.
\<close>

definition win_or_block_board :: board where
  "win_or_block_board =
     drop_all createBoard [(0, 1), (6, 2), (1, 1), (6, 2), (2, 1), (6, 2), (5, 1)]"

section \<open>Lines of four\<close>

text \<open>
  What the win scans look for, said without the scan: \<open>hit\<close> holds when the
  coordinates are on the board and the cell there holds the player's number;
  \<open>has_four\<close> holds when some cell of the board starts four such cells in a row along
  one of the four directions.
\<close>

definition hit :: "board \<Rightarrow> int \<Rightarrow> int \<Rightarrow> int \<Rightarrow> bool" where
  "hit board player r c \<longleftrightarrow> 0 \<le> r \<and> r < ROWS \<and> 0 \<le> c \<and> c < COLS \<and> cell board r c = player"

definition has_four :: "board \<Rightarrow> int \<Rightarrow> bool" where
  "has_four board player \<longleftrightarrow>
     (\<exists>r\<in>{0..<ROWS}. \<exists>c\<in>{0..<COLS}. \<exists>d\<in>set directions.
        \<forall>k\<in>{0..<WIN_LENGTH}. hit board player (r + fst d * k) (c + snd d * k))"

text \<open>
  A position after 37 alternating moves (Red began), in which only column 0 is open,
  with five empty cells, and Yellow is to move.
\<close>

definition endgame_board :: board where
  "endgame_board = drop_all createBoard
     [(0, 1), (1, 2), (3, 1), (1, 2), (1, 1), (2, 2), (1, 1), (1, 2), (1, 1), (3, 2),
      (2, 1), (3, 2), (2, 1), (3, 2), (2, 1), (2, 2), (2, 1), (4, 2), (3, 1), (4, 2),
      (4, 1), (4, 2), (4, 1), (4, 2), (6, 1), (5, 2), (6, 1), (6, 2), (5, 1), (6, 2),
      (5, 1), (6, 2), (5, 1), (5, 2), (3, 1), (5, 2), (6, 1)]"

text \<open>The full board five plies later, Yellow and Red alternating in column 0.\<close>

definition drawn_board :: board where
  "drawn_board =
    [[2, 1, 1, 1, 2, 2, 1],
     [1, 2, 2, 1, 1, 2, 2],
     [2, 1, 1, 2, 2, 1, 2],
     [1, 1, 1, 2, 1, 1, 2],
     [2, 2, 1, 2, 2, 1, 1],
     [1, 2, 2, 1, 2, 2, 1]]"

section \<open>Game session (app.js)\<close>

text \<open>
  The move object of \<open>createMoveObject\<close> (ui.js). The fields carry the prefix
  \<open>move_\<close> because \<open>row\<close> is already a field of the result of \<open>dropDisc\<close>.
\<close>

record move =
  move_turn :: nat
  move_player :: int
  move_column :: int
  move_row :: int
  move_aiFace :: "string option"
  move_aiText :: "string option"
  move_boardSnapshot :: "board option"
  move_timestamp :: int

text \<open>
  \<open>Date.now()\<close> is the parameter \<open>now\<close>; \<open>null\<close> is \<open>None\<close>. \<open>x || null\<close> on
  a string or \<open>null\<close> turns the empty string into \<open>null\<close> as well.
\<close>

definition or_null :: "string option \<Rightarrow> string option" where
  "or_null x = (case x of None \<Rightarrow> None | Some v \<Rightarrow> if v = [] then None else Some v)"

definition createMoveObject ::
  "nat \<Rightarrow> int \<Rightarrow> int \<Rightarrow> int \<Rightarrow> string option \<Rightarrow> string option \<Rightarrow> board option \<Rightarrow> int \<Rightarrow> move" where
  "createMoveObject turn player column r aiFace aiText boardSnapshot now =
     \<lparr>move_turn = turn, move_player = player, move_column = column, move_row = r,
      move_aiFace = or_null aiFace, move_aiText = or_null aiText,
      move_boardSnapshot = map_option cloneBoard boardSnapshot,
      move_timestamp = now\<rparr>"

text \<open>
  An entry of the undo stack: the object \<open>{board, player, moveHistoryLength}\<close> that
  \<open>makeMove\<close> and \<open>makeAIMove\<close> push.
\<close>

record checkpoint =
  saved_board :: board
  saved_player :: int
  saved_moveHistoryLength :: nat

text \<open>
  The module-level variables of app.js that make up the state of a game. \<open>push\<close>
  appends at the end of \<open>moveHistory\<close> and \<open>undoStack\<close>; \<open>pop\<close> removes the last
  element.
\<close>

record session =
  currentBoard :: board
  currentPlayer :: int
  gameMode :: string
  aiDifficulty :: string
  playerOrder :: string
  isGameActive :: bool
  isAnimating :: bool
  moveHistory :: "move list"
  undoStack :: "checkpoint list"

text \<open>
  \<open>handleGameOver(winner, winningLine)\<close>: the game is no longer active. The winner and
  the line go to the display and to the saved history, which are outside the session.
\<close>

definition handleGameOver :: "session \<Rightarrow> int option \<Rightarrow> (int \<times> int) list \<Rightarrow> session" where
  "handleGameOver s winner winningLine = s\<lparr>isGameActive := False, isAnimating := False\<rparr>"

text \<open>
  \<open>makeMove(col, player)\<close>. The function is asynchronous: after the disc is dropped it
  waits 600 ms for the animation, with \<open>isAnimating\<close> set, and then continues. The
  model runs both parts in one step, the state being the same before and after the
  wait. Logging, sound, drawing and the timer that starts the AI are not part of the
  session.
\<close>

definition makeMove :: "session \<Rightarrow> int \<Rightarrow> int \<Rightarrow> int \<Rightarrow> session" where
  "makeMove s col player now =
     (if isAnimating s then s
      else
        (let s = s\<lparr>isAnimating := True\<rparr>;
             s = s\<lparr>undoStack := undoStack s @
                    [\<lparr>saved_board = cloneBoard (currentBoard s),
                      saved_player = currentPlayer s,
                      saved_moveHistoryLength = length (moveHistory s)\<rparr>]\<rparr>;
             dropped = dropDisc (currentBoard s) col player;
             s = s\<lparr>currentBoard := fst dropped\<rparr>;
             result = snd dropped
         in if \<not> success result then s\<lparr>isAnimating := False\<rparr>
            else
              (let moveNumber = length (moveHistory s) + 1;
                   moveObj = createMoveObject moveNumber player col (row result) None None
                               (Some (cloneBoard (currentBoard s))) now;
                   s = s\<lparr>moveHistory := moveHistory s @ [moveObj]\<rparr>;
                   winCheck = checkWin (currentBoard s) (row result) col player
               in if win winCheck
                    then (handleGameOver s (Some player) (line winCheck))\<lparr>isAnimating := False\<rparr>
                  else if isBoardFull (currentBoard s)
                    then (handleGameOver s None [])\<lparr>isAnimating := False\<rparr>
                  else s\<lparr>currentPlayer := (if currentPlayer s = 1 then 2 else 1),
                         isAnimating := False\<rparr>)))"

text \<open>\<open>handleColumnClick(col)\<close>, the entry point of a human move.\<close>

definition handleColumnClick :: "session \<Rightarrow> int \<Rightarrow> int \<Rightarrow> session" where
  "handleColumnClick s col now =
     (if \<not> isGameActive s \<or> isAnimating s then s
      else if gameMode s = ''ai'' \<and> currentPlayer s = 2 then s
      else if isColumnFull (currentBoard s) col then s
      else makeMove s col (currentPlayer s) now)"

text \<open>
  \<open>makeAIMove()\<close>, the entry point of an AI move. \<open>rnd\<close> is the random number of
  \<open>getAIMove\<close>; \<open>emoji\<close> and \<open>reaction\<close> are the emoji and the text that
  \<open>updateAIFace\<close> picks for the move. As in \<open>makeMove\<close>, the waits (the thinking
  delay and the animation) are not steps of their own.
\<close>

definition makeAIMove :: "session \<Rightarrow> real \<Rightarrow> string \<Rightarrow> string \<Rightarrow> int \<Rightarrow> session" where
  "makeAIMove s rnd emoji reaction now =
     (if \<not> isGameActive s \<or> isAnimating s \<or> currentPlayer s \<noteq> 2 then s
      else
        (let s = s\<lparr>isAnimating := True\<rparr>;
             aiCol = getAIMove (currentBoard s) (aiDifficulty s) 2 rnd
         in if aiCol = -1 \<or> isColumnFull (currentBoard s) aiCol then s\<lparr>isAnimating := False\<rparr>
            else
              (let s = s\<lparr>undoStack := undoStack s @
                          [\<lparr>saved_board = cloneBoard (currentBoard s),
                            saved_player = currentPlayer s,
                            saved_moveHistoryLength = length (moveHistory s)\<rparr>]\<rparr>;
                   dropped = dropDisc (currentBoard s) aiCol 2;
                   s = s\<lparr>currentBoard := fst dropped\<rparr>;
                   result = snd dropped
               in if \<not> success result then s\<lparr>isAnimating := False\<rparr>
                  else
                    (let moveNumber = length (moveHistory s) + 1;
                         moveObj = createMoveObject moveNumber 2 aiCol (row result)
                                     (Some emoji) (Some reaction)
                                     (Some (cloneBoard (currentBoard s))) now;
                         s = s\<lparr>moveHistory := moveHistory s @ [moveObj]\<rparr>;
                         winCheck = checkWin (currentBoard s) (row result) aiCol 2
                     in if win winCheck
                          then (handleGameOver s (Some 2) (line winCheck))\<lparr>isAnimating := False\<rparr>
                        else if isBoardFull (currentBoard s)
                          then (handleGameOver s None [])\<lparr>isAnimating := False\<rparr>
                        else s\<lparr>currentPlayer := 1, isAnimating := False\<rparr>))))"

text \<open>\<open>handleUndo()\<close>: restore the last checkpoint.\<close>

definition handleUndo :: "session \<Rightarrow> session" where
  "handleUndo s =
     (if \<not> isGameActive s \<or> isAnimating s \<or> length (undoStack s) = 0 then s
      else
        (let lastState = last (undoStack s)
         in s\<lparr>undoStack := butlast (undoStack s),
               currentBoard := saved_board lastState,
               currentPlayer := saved_player lastState,
               moveHistory := take (saved_moveHistoryLength lastState) (moveHistory s)\<rparr>))"

text \<open>
  \<open>startNewGame()\<close>, after \<open>handleNewGameSubmit\<close> has stored the mode, the order and
  the difficulty: an empty board, empty move log and undo stack, and the starting side.
\<close>

definition startNewGame :: "session \<Rightarrow> session" where
  "startNewGame s =
     s\<lparr>currentBoard := createBoard, moveHistory := [], undoStack := [],
       currentPlayer := (if playerOrder s = ''player'' then 1 else 2),
       isGameActive := True\<rparr>"

text \<open>
  A game of two humans in which the first six clicks, at times 1 to 6, all went to
  column 6: the column is full and Red is to move.
\<close>

definition full_column_session :: session where
  "full_column_session =
     fold (\<lambda>now s. handleColumnClick s 6 now) [1, 2, 3, 4, 5, 6]
       (startNewGame
          \<lparr>currentBoard = [], currentPlayer = 1, gameMode = ''human'', aiDifficulty = ''medium'',
           playerOrder = ''player'', isGameActive = False, isAnimating = False,
           moveHistory = [], undoStack = []\<rparr>)"

section \<open>Properties of the board\<close>

lemma wf_board_iff:
  "wf_board board \<longleftrightarrow> length board = 6 \<and> (\<forall>i<6. length (board ! i) = 7)"
  by (auto simp: wf_board_def ROWS_def COLS_def list_all_length)

lemma wf_createBoard: "wf_board createBoard"
  by (simp add: wf_board_iff createBoard_def ROWS_def COLS_def)

lemma cloneBoard_id [simp]: "cloneBoard board = board"
  by (simp add: cloneBoard_def)

lemma lowest_from_full:
  "lowest_from board col n = -1 \<longleftrightarrow> (\<forall>i<n. cell board (int i) col \<noteq> 0)"
  by (induction n) (auto simp: less_Suc_eq)

lemma lowest_from_range:
  "lowest_from board col n \<noteq> -1 \<Longrightarrow> 0 \<le> lowest_from board col n \<and> lowest_from board col n < int n"
  by (induction n) (auto split: if_splits)

lemma lowest_from_empty:
  "lowest_from board col n \<noteq> -1 \<Longrightarrow> cell board (lowest_from board col n) col = 0"
  by (induction n) (auto split: if_splits)

lemma lowest_from_below:
  "lowest_from board col n \<noteq> -1 \<Longrightarrow> lowest_from board col n < i \<Longrightarrow> i < int n \<Longrightarrow>
   cell board i col \<noteq> 0"
proof (induction n)
  case 0
  then show ?case by simp
next
  case (Suc n)
  show ?case
  proof (cases "cell board (int n) col = 0")
    case True
    with Suc.prems show ?thesis by simp
  next
    case False
    show ?thesis
    proof (cases "i = int n")
      case True
      with False show ?thesis by simp
    next
      case ne: False
      with Suc.prems False have "i < int n" by simp
      with Suc.IH Suc.prems False show ?thesis by simp
    qed
  qed
qed

lemma cell_update:
  assumes "wf_board board" "0 \<le> r" "r < ROWS" "0 \<le> c" "c < COLS"
    "0 \<le> r'" "r' < ROWS" "0 \<le> c'" "c' < COLS"
  shows "cell (board[nat r := (board ! nat r)[nat c := v]]) r' c' =
         (if r' = r \<and> c' = c then v else cell board r' c')"
  using assms
  by (auto simp: cell_def wf_board_iff ROWS_def COLS_def nth_list_update)

lemma wf_board_update:
  "wf_board board \<Longrightarrow> wf_board (board[i := (board ! i)[j := v]])"
proof -
  assume wf: "wf_board board"
  have "length ((board[i := (board ! i)[j := v]]) ! k) = 7" if "k < 6" for k
    using wf that by (cases "k = i") (auto simp: wf_board_iff)
  with wf show ?thesis by (simp add: wf_board_iff)
qed

lemma getLowestEmptyRow_full:
  "getLowestEmptyRow board c = -1 \<longleftrightarrow>
   (c < 0 \<or> COLS \<le> c \<or> (\<forall>r\<in>{0..<ROWS}. cell board r c \<noteq> 0))"
proof -
  have "(\<forall>i<nat ROWS. cell board (int i) c \<noteq> 0) \<longleftrightarrow> (\<forall>r\<in>{0..<ROWS}. cell board r c \<noteq> 0)"
  proof
    assume h: "\<forall>i<nat ROWS. cell board (int i) c \<noteq> 0"
    show "\<forall>r\<in>{0..<ROWS}. cell board r c \<noteq> 0"
    proof
      fix r assume "r \<in> {0..<ROWS}"
      then have "nat r < nat ROWS" "int (nat r) = r" by auto
      with h show "cell board r c \<noteq> 0" by metis
    qed
  next
    assume h: "\<forall>r\<in>{0..<ROWS}. cell board r c \<noteq> 0"
    show "\<forall>i<nat ROWS. cell board (int i) c \<noteq> 0"
    proof (intro allI impI)
      fix i assume "i < nat ROWS"
      then have "int i \<in> {0..<ROWS}" by auto
      with h show "cell board (int i) c \<noteq> 0" by blast
    qed
  qed
  then show ?thesis
    by (auto simp: getLowestEmptyRow_def lowest_from_full)
qed

lemma getLowestEmptyRow_found:
  assumes "getLowestEmptyRow board c \<noteq> -1"
  shows "0 \<le> c \<and> c < COLS \<and> 0 \<le> getLowestEmptyRow board c \<and> getLowestEmptyRow board c < ROWS
     \<and> cell board (getLowestEmptyRow board c) c = 0
     \<and> (\<forall>r\<in>{getLowestEmptyRow board c<..<ROWS}. cell board r c \<noteq> 0)"
proof -
  from assms have c: "0 \<le> c" "c < COLS" and g: "getLowestEmptyRow board c = lowest_from board c (nat ROWS)"
    by (auto simp: getLowestEmptyRow_def split: if_splits)
  from assms g have ne: "lowest_from board c (nat ROWS) \<noteq> -1" by simp
  from lowest_from_range[OF ne] have rng: "0 \<le> getLowestEmptyRow board c" "getLowestEmptyRow board c < ROWS"
    using g by (auto simp: ROWS_def)
  from lowest_from_empty[OF ne] have e: "cell board (getLowestEmptyRow board c) c = 0" using g by simp
  have "\<forall>r\<in>{getLowestEmptyRow board c<..<ROWS}. cell board r c \<noteq> 0"
  proof
    fix r assume "r \<in> {getLowestEmptyRow board c<..<ROWS}"
    then have "lowest_from board c (nat ROWS) < r" "r < int (nat ROWS)" using g by (auto simp: ROWS_def)
    with lowest_from_below[OF ne] show "cell board r c \<noteq> 0" by blast
  qed
  with c rng e show ?thesis by blast
qed

lemma dropDisc_fail:
  "getLowestEmptyRow board c = -1 \<Longrightarrow> dropDisc board c s = (board, \<lparr>success = False, row = -1\<rparr>)"
  by (simp add: dropDisc_def)

lemma dropDisc_ok:
  assumes wf: "wf_board board" and ne: "getLowestEmptyRow board c \<noteq> -1"
  shows "success (snd (dropDisc board c s))"
    and "row (snd (dropDisc board c s)) = getLowestEmptyRow board c"
    and "wf_board (fst (dropDisc board c s))"
    and "\<And>r' c'. 0 \<le> r' \<Longrightarrow> r' < ROWS \<Longrightarrow> 0 \<le> c' \<Longrightarrow> c' < COLS \<Longrightarrow>
           cell (fst (dropDisc board c s)) r' c' =
             (if r' = getLowestEmptyRow board c \<and> c' = c then s else cell board r' c')"
proof -
  note f = getLowestEmptyRow_found[OF ne]
  have d: "dropDisc board c s =
    (board[nat (getLowestEmptyRow board c) := (board ! nat (getLowestEmptyRow board c))[nat c := s]],
     \<lparr>success = True, row = getLowestEmptyRow board c\<rparr>)"
    using ne by (simp add: dropDisc_def Let_def)
  show "success (snd (dropDisc board c s))" by (simp add: d)
  show "row (snd (dropDisc board c s)) = getLowestEmptyRow board c" by (simp add: d)
  show "wf_board (fst (dropDisc board c s))" using wf_board_update[OF wf] by (simp add: d)
  show "\<And>r' c'. 0 \<le> r' \<Longrightarrow> r' < ROWS \<Longrightarrow> 0 \<le> c' \<Longrightarrow> c' < COLS \<Longrightarrow>
           cell (fst (dropDisc board c s)) r' c' =
             (if r' = getLowestEmptyRow board c \<and> c' = c then s else cell board r' c')"
    using f cell_update[OF wf, of "getLowestEmptyRow board c" c] by (simp add: d)
qed

lemma dropDisc_success_iff:
  "success (snd (dropDisc board c s)) \<longleftrightarrow> getLowestEmptyRow board c \<noteq> -1"
  by (simp add: dropDisc_def Let_def)

lemma getLowestEmptyRow_eqI:
  assumes "0 \<le> c" "c < COLS" "0 \<le> x" "x < ROWS" "cell board x c = 0"
    and below: "\<forall>r\<in>{x<..<ROWS}. cell board r c \<noteq> 0"
  shows "getLowestEmptyRow board c = x"
proof -
  have ne: "getLowestEmptyRow board c \<noteq> -1"
    using assms getLowestEmptyRow_full[of board c] by auto
  note f = getLowestEmptyRow_found[OF ne]
  show ?thesis
  proof (rule ccontr)
    assume d: "getLowestEmptyRow board c \<noteq> x"
    show False
    proof (cases "getLowestEmptyRow board c < x")
      case True
      with f assms show False by auto
    next
      case False
      with d have "x < getLowestEmptyRow board c" by simp
      with f below show False by auto
    qed
  qed
qed

subsection \<open>Placement\<close>

text \<open>
  Claim C1. On a 6 by 7 board, \<open>dropDisc(board, c, s)\<close> reports failure and leaves
  the board as it was exactly when \<open>c\<close> is outside \<open>0..6\<close> or column \<open>c\<close> has no
  empty cell, and then the reported row is \<open>-1\<close>. Otherwise it reports success with the
  row \<open>getLowestEmptyRow\<close> gives, which is the bottommost empty cell of the column;
  the board keeps its shape, the cell at the landing row of column \<open>c\<close> holds \<open>s\<close>, and
  every other cell is unchanged.
\<close>

theorem dropDisc_spec:
  assumes wf: "wf_board board"
  shows "((\<not> success (snd (dropDisc board c s)) \<and> fst (dropDisc board c s) = board)
           \<longleftrightarrow> (c < 0 \<or> COLS \<le> c \<or> (\<forall>r\<in>{0..<ROWS}. cell board r c \<noteq> 0)))
       \<and> (if c < 0 \<or> COLS \<le> c \<or> (\<forall>r\<in>{0..<ROWS}. cell board r c \<noteq> 0)
          then row (snd (dropDisc board c s)) = -1
          else success (snd (dropDisc board c s))
             \<and> row (snd (dropDisc board c s)) = getLowestEmptyRow board c
             \<and> 0 \<le> row (snd (dropDisc board c s)) \<and> row (snd (dropDisc board c s)) < ROWS
             \<and> cell board (row (snd (dropDisc board c s))) c = 0
             \<and> (\<forall>r\<in>{row (snd (dropDisc board c s))<..<ROWS}. cell board r c \<noteq> 0)
             \<and> wf_board (fst (dropDisc board c s))
             \<and> cell (fst (dropDisc board c s)) (row (snd (dropDisc board c s))) c = s
             \<and> (\<forall>r'\<in>{0..<ROWS}. \<forall>c'\<in>{0..<COLS}.
                   (r', c') \<noteq> (row (snd (dropDisc board c s)), c) \<longrightarrow>
                   cell (fst (dropDisc board c s)) r' c' = cell board r' c'))"
proof (cases "getLowestEmptyRow board c = -1")
  case True
  then show ?thesis
    using getLowestEmptyRow_full[of board c] by (simp add: dropDisc_fail)
next
  case False
  note f = getLowestEmptyRow_found[OF False]
  note d = dropDisc_ok[OF wf False, where s = s]
  from False have nf: "\<not> (c < 0 \<or> COLS \<le> c \<or> (\<forall>r\<in>{0..<ROWS}. cell board r c \<noteq> 0))"
    using getLowestEmptyRow_full[of board c] by simp
  show ?thesis
    using nf f d by auto
qed

text \<open>The first disc of a game, dropped in the centre column, lands on row 5.\<close>

theorem dropDisc_spec_witness:
  "wf_board createBoard
   \<and> success (snd (dropDisc createBoard 3 1))
   \<and> row (snd (dropDisc createBoard 3 1)) = 5
   \<and> cell (fst (dropDisc createBoard 3 1)) 5 3 = 1
   \<and> cell (fst (dropDisc createBoard 3 1)) 5 2 = cell createBoard 5 2"
proof -
  have e: "getLowestEmptyRow createBoard 3 = 5"
    by code_simp
  have "cell createBoard 0 3 = 0" "(0::int) \<in> {0..<ROWS}"
    by code_simp+
  then have nf: "\<not> (3 < (0::int) \<or> COLS \<le> 3 \<or> (\<forall>r\<in>{0..<ROWS}. cell createBoard r 3 \<noteq> 0))"
    by (auto simp: COLS_def)
  have in_range: "(5::int) \<in> {0..<ROWS}" "(2::int) \<in> {0..<COLS}"
    by (simp_all add: ROWS_def COLS_def)
  note spec = dropDisc_spec[OF wf_createBoard, of 3 1, THEN conjunct2, unfolded if_not_P[OF nf]]
  from spec have ok: "success (snd (dropDisc createBoard 3 1))"
    by (rule conjunct1)
  from spec have r: "row (snd (dropDisc createBoard 3 1)) = getLowestEmptyRow createBoard 3"
    by blast
  from spec have new: "cell (fst (dropDisc createBoard 3 1)) (row (snd (dropDisc createBoard 3 1))) 3 = 1"
    by blast
  from spec have others: "\<forall>r'\<in>{0..<ROWS}. \<forall>c'\<in>{0..<COLS}.
                   (r', c') \<noteq> (row (snd (dropDisc createBoard 3 1)), 3) \<longrightarrow>
                   cell (fst (dropDisc createBoard 3 1)) r' c' = cell createBoard r' c'"
    by blast
  from others in_range
  have "(5, 2) \<noteq> (row (snd (dropDisc createBoard 3 1)), 3::int) \<longrightarrow>
        cell (fst (dropDisc createBoard 3 1)) 5 2 = cell createBoard 5 2"
    by blast
  then have "cell (fst (dropDisc createBoard 3 1)) 5 2 = cell createBoard 5 2"
    by simp
  with ok r new e show ?thesis
    by (simp add: wf_createBoard)
qed

subsection \<open>The no-floating-token invariant\<close>

lemma dropDisc_no_floating:
  assumes wf: "wf_board board" and inv: "no_floating board"
    and ok: "success (snd (dropDisc board c s))"
  shows "no_floating (fst (dropDisc board c s))"
proof -
  from ok have ne: "getLowestEmptyRow board c \<noteq> -1" by (simp add: dropDisc_success_iff)
  note f = getLowestEmptyRow_found[OF ne]
  note d = dropDisc_ok[OF wf ne, where s = s]
  let ?b = "fst (dropDisc board c s)" and ?r = "getLowestEmptyRow board c"
  have "cell ?b r2 c' \<noteq> 0"
    if c': "c' \<in> {0..<COLS}" and r1: "r1 \<in> {0..<ROWS}" and r2: "r2 \<in> {r1<..<ROWS}"
      and occ: "cell ?b r1 c' \<noteq> 0" for c' r1 r2
  proof -
    from c' r1 r2 have rng: "0 \<le> r1" "r1 < ROWS" "0 \<le> r2" "r2 < ROWS" "0 \<le> c'" "c' < COLS" "r1 < r2"
      by auto
    from inv c' r1 r2 have old: "cell board r1 c' \<noteq> 0 \<Longrightarrow> cell board r2 c' \<noteq> 0"
      unfolding no_floating_def column_no_floating_def by blast
    show ?thesis
    proof (cases "c' = c")
      case False
      with d(4) rng occ old show ?thesis by simp
    next
      case True
      show ?thesis
      proof (cases "r1 = ?r")
        case True
        with rng f have "cell board r2 c \<noteq> 0" by auto
        with d(4)[of r2 c'] rng \<open>c' = c\<close> True show ?thesis by simp
      next
        case r1ne: False
        with d(4)[of r1 c'] rng occ have o1: "cell board r1 c' \<noteq> 0" by simp
        then have o2: "cell board r2 c' \<noteq> 0" by (rule old)
        with f \<open>c' = c\<close> have "r2 \<noteq> ?r" by auto
        with d(4)[of r2 c'] rng o2 show ?thesis by simp
      qed
    qed
  qed
  then show ?thesis
    unfolding no_floating_def column_no_floating_def by blast
qed

lemma cell_createBoard:
  "0 \<le> r \<Longrightarrow> r < ROWS \<Longrightarrow> 0 \<le> c \<Longrightarrow> c < COLS \<Longrightarrow> cell createBoard r c = 0"
  by (simp add: createBoard_def cell_def ROWS_def COLS_def)

lemma no_floating_createBoard: "no_floating createBoard"
  unfolding no_floating_def column_no_floating_def
  by (simp add: cell_createBoard)

lemma reachable_wf: "reachable board \<Longrightarrow> wf_board board"
proof (induction rule: reachable.induct)
  case start
  show ?case by (rule wf_createBoard)
next
  case (drop board c s)
  then show ?case
    using dropDisc_ok(3)[of board c s] by (simp add: dropDisc_success_iff)
qed

text \<open>
  Claim C2. Every board reachable from \<open>createBoard()\<close> by successful \<open>dropDisc\<close>
  calls (any column, any player number) is a 6 by 7 board in which, in every column,
  every cell below an occupied cell is occupied.
\<close>

theorem reachable_no_floating:
  "reachable board \<Longrightarrow> wf_board board \<and> no_floating board"
proof (induction rule: reachable.induct)
  case start
  show ?case by (simp add: wf_createBoard no_floating_createBoard)
next
  case (drop board c s)
  then show ?case
    using dropDisc_no_floating[of board c s] dropDisc_ok(3)[of board c s]
    by (simp add: dropDisc_success_iff)
qed

text \<open>Red and then Yellow drop a disc in the centre column of the empty board.\<close>

theorem reachable_no_floating_witness:
  "reachable (fst (dropDisc (fst (dropDisc createBoard 3 1)) 3 2))
   \<and> wf_board (fst (dropDisc (fst (dropDisc createBoard 3 1)) 3 2))
   \<and> no_floating (fst (dropDisc (fst (dropDisc createBoard 3 1)) 3 2))"
proof -
  have ok1: "success (snd (dropDisc createBoard 3 1))"
    by code_simp
  have ok2: "success (snd (dropDisc (fst (dropDisc createBoard 3 1)) 3 2))"
    by code_simp
  have r: "reachable (fst (dropDisc (fst (dropDisc createBoard 3 1)) 3 2))"
    by (rule reachable.drop[OF reachable.drop[OF reachable.start ok1] ok2])
  from reachable_no_floating[OF r] r show ?thesis
    by simp
qed

subsection \<open>The landing row after a placement\<close>

text \<open>
  Claim C3, as stated for arbitrary boards, fails: with a token floating at row 4 of
  column 0, a disc dropped there lands on row 5, and the next landing row is 3, which
  is neither 4 nor the sentinel \<open>-1\<close>.
\<close>

theorem dropDisc_row_counterexample:
  "wf_board floating_board
   \<and> success (snd (dropDisc floating_board 0 1))
   \<and> getLowestEmptyRow floating_board 0 = 5
   \<and> getLowestEmptyRow (fst (dropDisc floating_board 0 1)) 0 = 3"
  by code_simp

text \<open>
  Claim C3, amended. On a 6 by 7 board whose column \<open>c\<close> has no floating token (as on
  every reachable board), after a successful \<open>dropDisc(b, c, s)\<close> with a player number
  \<open>s\<close> other than 0 the value of \<open>getLowestEmptyRow(b, c)\<close> is exactly one less than
  before; that value is the sentinel \<open>-1\<close> when the disc landed on row 0.
\<close>

theorem dropDisc_lowers_row:
  assumes wf: "wf_board board" and inv: "column_no_floating board c" and s: "s \<noteq> 0"
    and ok: "success (snd (dropDisc board c s))"
  shows "getLowestEmptyRow (fst (dropDisc board c s)) c = getLowestEmptyRow board c - 1"
proof -
  from ok have ne: "getLowestEmptyRow board c \<noteq> -1" by (simp add: dropDisc_success_iff)
  note f = getLowestEmptyRow_found[OF ne]
  note d = dropDisc_ok[OF wf ne, where s = s]
  let ?b = "fst (dropDisc board c s)" and ?r = "getLowestEmptyRow board c"
  have above: "cell board r' c = 0" if "0 \<le> r'" "r' < ?r" for r'
  proof (rule ccontr)
    assume "cell board r' c \<noteq> 0"
    moreover from that f have "r' \<in> {0..<ROWS}" "?r \<in> {r'<..<ROWS}" by auto
    ultimately have "cell board ?r c \<noteq> 0"
      using inv unfolding column_no_floating_def by blast
    with f show False by simp
  qed
  have new: "cell ?b r' c = (if r' = ?r then s else cell board r' c)" if "0 \<le> r'" "r' < ROWS" for r'
    using d(4)[of r' c] that f by simp
  show ?thesis
  proof (cases "?r = 0")
    case True
    have "\<forall>r'\<in>{0..<ROWS}. cell ?b r' c \<noteq> 0"
    proof
      fix r' assume r': "r' \<in> {0..<ROWS}"
      show "cell ?b r' c \<noteq> 0"
      proof (cases "r' = ?r")
        case True
        with new[of r'] r' s show ?thesis by simp
      next
        case False
        with r' True have "r' \<in> {?r<..<ROWS}" by auto
        with f have "cell board r' c \<noteq> 0" by blast
        with new[of r'] r' False show ?thesis by simp
      qed
    qed
    then have "getLowestEmptyRow ?b c = -1"
      using getLowestEmptyRow_full[of ?b c] by simp
    with True show ?thesis by simp
  next
    case False
    with f have pos: "0 \<le> ?r - 1" "?r - 1 < ROWS" "?r - 1 < ?r" by auto
    have e: "cell ?b (?r - 1) c = 0"
      using new[of "?r - 1"] above[of "?r - 1"] pos by simp
    have "\<forall>r'\<in>{?r - 1<..<ROWS}. cell ?b r' c \<noteq> 0"
    proof
      fix r' assume r': "r' \<in> {?r - 1<..<ROWS}"
      then have rng: "0 \<le> r'" "r' < ROWS" using pos by auto
      show "cell ?b r' c \<noteq> 0"
      proof (cases "r' = ?r")
        case True
        with new[of r'] rng s show ?thesis by simp
      next
        case False
        with r' have "r' \<in> {?r<..<ROWS}" by auto
        with f have "cell board r' c \<noteq> 0" by blast
        with new[of r'] rng False show ?thesis by simp
      qed
    qed
    with e pos f show ?thesis
      by (intro getLowestEmptyRow_eqI) auto
  qed
qed

text \<open>After the first disc in the centre column the landing row goes from 5 to 4.\<close>

theorem dropDisc_lowers_row_witness:
  "wf_board createBoard \<and> column_no_floating createBoard 3 \<and> (1::int) \<noteq> 0
   \<and> success (snd (dropDisc createBoard 3 1))
   \<and> getLowestEmptyRow createBoard 3 = 5
   \<and> getLowestEmptyRow (fst (dropDisc createBoard 3 1)) 3 = 4"
proof -
  have inv: "column_no_floating createBoard 3"
    using no_floating_createBoard by (simp add: no_floating_def COLS_def)
  have ok: "success (snd (dropDisc createBoard 3 1))"
    by code_simp
  have e: "getLowestEmptyRow createBoard 3 = 5"
    by code_simp
  from dropDisc_lowers_row[OF wf_createBoard inv _ ok] e inv ok show ?thesis
    by (simp add: wf_createBoard)
qed

section \<open>Win detection\<close>

text \<open>
  Claim C8. From the empty board Red drops in columns 0, 1, 2 and Yellow in column 6
  after each; Red's fourth disc, in column 3, lands on row 5, and \<open>checkWin\<close> at
  (5, 3) for Red reports a win with the line (5,0), (5,1), (5,2), (5,3) in that order.
\<close>

theorem scenario_red_wins_bottom_row:
  "row (snd (dropDisc (drop_all createBoard [(0, 1), (6, 2), (1, 1), (6, 2), (2, 1), (6, 2)]) 3 1)) = 5
   \<and> success (snd (dropDisc (drop_all createBoard [(0, 1), (6, 2), (1, 1), (6, 2), (2, 1), (6, 2)]) 3 1))
   \<and> checkWin (fst (dropDisc (drop_all createBoard [(0, 1), (6, 2), (1, 1), (6, 2), (2, 1), (6, 2)]) 3 1)) 5 3 1
       = \<lparr>win = True, line = [(5, 0), (5, 1), (5, 2), (5, 3)]\<rparr>"
  by code_simp

subsection \<open>Relabelling the sides\<close>

lemma cell_swap_sides:
  assumes "wf_board board" "0 \<le> r" "r < ROWS" "0 \<le> c" "c < COLS"
  shows "cell (swap_sides board) r c = swap_cell (cell board r c)"
  using assms by (simp add: cell_def swap_sides_def wf_board_iff ROWS_def COLS_def)

lemma swap_cell_eq:
  "s = 1 \<or> s = 2 \<Longrightarrow> swap_cell x = opponent_of s \<longleftrightarrow> x = s"
  by (auto simp: swap_cell_def opponent_of_def)

lemma forward_loop_swap:
  assumes "wf_board board" "s = 1 \<or> s = 2"
  shows "forward_loop (swap_sides board) r c dr dc (opponent_of s) is st = forward_loop board r c dr dc s is st"
proof (induction "is" arbitrary: st)
  case Nil
  show ?case by simp
next
  case (Cons i rest)
  obtain lin count where st: "st = (lin, count)" by (cases st)
  show ?case
    using Cons.IH assms by (simp add: st Let_def cell_swap_sides swap_cell_eq)
qed

lemma backward_loop_swap:
  assumes "wf_board board" "s = 1 \<or> s = 2"
  shows "backward_loop (swap_sides board) r c dr dc (opponent_of s) is st = backward_loop board r c dr dc s is st"
proof (induction "is" arbitrary: st)
  case Nil
  show ?case by simp
next
  case (Cons i rest)
  obtain lin count where st: "st = (lin, count)" by (cases st)
  show ?case
    using Cons.IH assms by (simp add: st Let_def cell_swap_sides swap_cell_eq)
qed

lemma check_direction_swap:
  assumes "wf_board board" "s = 1 \<or> s = 2"
  shows "check_direction (swap_sides board) r c (opponent_of s) d = check_direction board r c s d"
  by (simp add: check_direction_def Let_def forward_loop_swap[OF assms] backward_loop_swap[OF assms])

lemma check_directions_swap:
  assumes "wf_board board" "s = 1 \<or> s = 2"
  shows "check_directions (swap_sides board) r c (opponent_of s) ds = check_directions board r c s ds"
  by (induction ds) (simp_all add: Let_def check_direction_swap[OF assms])

text \<open>
  Claim C9. On a 6 by 7 board, for every start cell and each of the two sides,
  \<open>checkWin\<close> on the board with Red and Yellow swapped, asked for the other side,
  returns the same result object: the same \<open>win\<close> flag and the same line.
\<close>

theorem checkWin_swap_sides:
  assumes "wf_board board" "s = 1 \<or> s = 2"
  shows "checkWin (swap_sides board) r c (opponent_of s) = checkWin board r c s"
  by (simp add: checkWin_def check_directions_swap[OF assms])

text \<open>The bottom-row win of Red, seen as a win of Yellow on the swapped board.\<close>

theorem checkWin_swap_sides_witness:
  "wf_board (drop_all createBoard [(0, 1), (6, 2), (1, 1), (6, 2), (2, 1), (6, 2), (3, 1)])
   \<and> ((1::int) = 1 \<or> (1::int) = 2)
   \<and> checkWin (swap_sides (drop_all createBoard
          [(0, 1), (6, 2), (1, 1), (6, 2), (2, 1), (6, 2), (3, 1)])) 5 3 (opponent_of 1)
       = \<lparr>win = True, line = [(5, 0), (5, 1), (5, 2), (5, 3)]\<rparr>"
proof -
  have wf: "wf_board (drop_all createBoard [(0, 1), (6, 2), (1, 1), (6, 2), (2, 1), (6, 2), (3, 1)])"
    by code_simp
  have w: "checkWin (drop_all createBoard [(0, 1), (6, 2), (1, 1), (6, 2), (2, 1), (6, 2), (3, 1)]) 5 3 1
       = \<lparr>win = True, line = [(5, 0), (5, 1), (5, 2), (5, 3)]\<rparr>"
    by code_simp
  have s: "(1::int) = 1 \<or> (1::int) = 2"
    by simp
  from checkWin_swap_sides[OF wf s, of 5 3] wf w show ?thesis
    by simp
qed

section \<open>Position evaluator\<close>

lemma opponent_of_neq: "opponent_of p \<noteq> p"
  by (simp add: opponent_of_def)

lemma opponent_of_twice: "p = 1 \<or> p = 2 \<Longrightarrow> opponent_of (opponent_of p) = p"
  by (auto simp: opponent_of_def)

lemma win_scan_flip:
  "p \<noteq> q \<Longrightarrow> win_scan board q p cells = flip_scan (win_scan board p q cells)"
  by (induction cells) auto

lemma center_step_neg:
  "p \<noteq> q \<Longrightarrow> center_step board q p r (- s) = - center_step board p q r s"
  by (simp add: center_step_def)

lemma fold_center_step_neg:
  "p \<noteq> q \<Longrightarrow> fold (center_step board q p) rs (- s) = - fold (center_step board p q) rs s"
  by (induction rs arbitrary: s) (simp_all add: center_step_neg)

lemma pair_step_neg:
  "p \<noteq> q \<Longrightarrow> pair_step board q p dr dc rc (- s) = - pair_step board p q dr dc rc s"
  by (simp add: pair_step_def Let_def)

lemma fold_pair_step_neg:
  "p \<noteq> q \<Longrightarrow> fold (pair_step board q p dr dc) cells (- s) = - fold (pair_step board p q dr dc) cells s"
  by (induction cells arbitrary: s) (simp_all add: pair_step_neg)

text \<open>
  Claim C10. On a 6 by 7 board and for each of the two players \<open>p\<close>, the evaluator is
  antisymmetric: \<open>evaluateBoard(b, p) = -evaluateBoard(b, q)\<close> for the opponent \<open>q\<close> of
  \<open>p\<close>. The win scan stops at the same cell for both (\<open>win_scan_flip\<close>), and the
  centre-column and adjacent-pair terms change sign.
\<close>

theorem evaluateBoard_antisymmetric:
  assumes "wf_board board" "p = 1 \<or> p = 2"
  shows "evaluateBoard board p = - evaluateBoard board (opponent_of p)"
proof -
  let ?q = "opponent_of p"
  have ne: "?q \<noteq> p" by (rule opponent_of_neq)
  have twice: "opponent_of ?q = p" using assms(2) by (rule opponent_of_twice)
  have scan: "win_scan board p ?q cells = flip_scan (win_scan board ?q p cells)" for cells
    using ne by (rule win_scan_flip)
  have heur: "fold (pair_step board p ?q 1 (-1)) c5
              (fold (pair_step board p ?q 1 1) c4
                (fold (pair_step board p ?q 1 0) c3
                  (fold (pair_step board p ?q 0 1) c2
                    (fold (center_step board p ?q) c1 0))))
            = - fold (pair_step board ?q p 1 (-1)) c5
              (fold (pair_step board ?q p 1 1) c4
                (fold (pair_step board ?q p 1 0) c3
                  (fold (pair_step board ?q p 0 1) c2
                    (fold (center_step board ?q p) c1 0))))" for c1 c2 c3 c4 c5
    using fold_center_step_neg[OF ne, of board c1 0]
    by (simp add: fold_pair_step_neg[OF ne])
  show ?thesis
    unfolding evaluateBoard_def Let_def twice
    by (cases "win_scan board ?q p (List.product [0..ROWS - 1] [0..COLS - 1])")
       (simp_all add: scan heur)
qed

text \<open>The sample position is worth 16 to Red and -16 to Yellow.\<close>

theorem evaluateBoard_antisymmetric_witness:
  "wf_board midgame_board \<and> ((1::int) = 1 \<or> (1::int) = 2)
   \<and> evaluateBoard midgame_board 1 = 16
   \<and> evaluateBoard midgame_board (opponent_of 1) = -16"
proof -
  have wf: "wf_board midgame_board"
    by code_simp
  have e: "evaluateBoard midgame_board 1 = 16"
    by code_simp
  have p: "(1::int) = 1 \<or> (1::int) = 2"
    by simp
  from evaluateBoard_antisymmetric[OF wf p] e wf show ?thesis
    by simp
qed

section \<open>AI opponent\<close>

lemma set_getAvailableMoves:
  "set (getAvailableMoves board) = {col. \<not> isColumnFull board col}"
  by (auto simp: getAvailableMoves_def isColumnFull_def)

lemma getAvailableMoves_range:
  "col \<in> set (getAvailableMoves board) \<Longrightarrow> 0 \<le> col \<and> col < COLS"
  by (auto simp: getAvailableMoves_def)

lemma getAvailableMoves_empty:
  "getAvailableMoves board = [] \<longleftrightarrow> (\<forall>col. isColumnFull board col)"
  using set_getAvailableMoves[of board] by (auto simp flip: set_empty)

lemma getEasyMove_mem:
  assumes "availableMoves \<noteq> []" "0 \<le> rnd" "rnd < 1"
  shows "getEasyMove availableMoves rnd \<in> set availableMoves"
proof -
  let ?n = "length availableMoves"
  from assms have pos: "0 < real ?n" by simp
  with assms have "rnd * real ?n < real ?n" by simp
  then have "\<lfloor>rnd * real ?n\<rfloor> < int ?n" by (simp add: floor_less_iff)
  moreover from assms have "0 \<le> \<lfloor>rnd * real ?n\<rfloor>" by simp
  ultimately have "nat \<lfloor>rnd * real ?n\<rfloor> < ?n" by linarith
  then show ?thesis by (simp add: getEasyMove_def)
qed

lemma find_mem: "find P xs = Some x \<Longrightarrow> x \<in> set xs \<and> P x"
  by (auto simp: find_Some_iff)

lemma find_filter_hd:
  "find P xs = Some x \<longleftrightarrow> filter P xs \<noteq> [] \<and> hd (filter P xs) = x"
  by (induction xs) auto

lemma find_filter_None: "find P xs = None \<longleftrightarrow> filter P xs = []"
  by (induction xs) auto

lemma center_find:
  assumes "availableMoves \<noteq> []" "\<forall>col\<in>set availableMoves. 0 \<le> col \<and> col < COLS"
  shows "\<exists>col. find (\<lambda>col. col \<in> set availableMoves) centerOrder = Some col"
proof -
  from assms obtain c where c: "c \<in> set availableMoves" "0 \<le> c" "c < 7"
    by (cases availableMoves) (auto simp: COLS_def)
  then have "c \<in> set centerOrder"
    by (simp add: centerOrder_def) arith
  with c have "\<exists>x\<in>set centerOrder. x \<in> set availableMoves"
    by auto
  then show ?thesis
    by (cases "find (\<lambda>col. col \<in> set availableMoves) centerOrder") (auto simp: find_None_iff)
qed

lemma getMediumMove_cases:
  assumes "availableMoves \<noteq> []" "\<forall>col\<in>set availableMoves. 0 \<le> col \<and> col < COLS"
  shows "getMediumMove board availableMoves aiPlayer rnd =
     (if filter (\<lambda>col. wins_by_drop board col aiPlayer) availableMoves \<noteq> []
      then hd (filter (\<lambda>col. wins_by_drop board col aiPlayer) availableMoves)
      else if filter (\<lambda>col. wins_by_drop board col (opponent_of aiPlayer)) availableMoves \<noteq> []
      then hd (filter (\<lambda>col. wins_by_drop board col (opponent_of aiPlayer)) availableMoves)
      else the (find (\<lambda>col. col \<in> set availableMoves) centerOrder))"
proof -
  from center_find[OF assms] obtain c where c: "find (\<lambda>col. col \<in> set availableMoves) centerOrder = Some c"
    by blast
  show ?thesis
  proof (cases "find (\<lambda>col. wins_by_drop board col aiPlayer) availableMoves")
    case (Some w)
    then have "filter (\<lambda>col. wins_by_drop board col aiPlayer) availableMoves \<noteq> []"
      "hd (filter (\<lambda>col. wins_by_drop board col aiPlayer) availableMoves) = w"
      by (simp_all add: find_filter_hd)
    then show ?thesis
      by (simp add: getMediumMove_def Some)
  next
    case None
    note n1 = this
    then have f1: "filter (\<lambda>col. wins_by_drop board col aiPlayer) availableMoves = []"
      by (simp add: find_filter_None)
    show ?thesis
    proof (cases "find (\<lambda>col. wins_by_drop board col (opponent_of aiPlayer)) availableMoves")
      case (Some w)
      then have "filter (\<lambda>col. wins_by_drop board col (opponent_of aiPlayer)) availableMoves \<noteq> []"
        "hd (filter (\<lambda>col. wins_by_drop board col (opponent_of aiPlayer)) availableMoves) = w"
        by (simp_all add: find_filter_hd)
      then show ?thesis
        by (simp add: getMediumMove_def n1 f1 Some)
    next
      case None
      then have f2: "filter (\<lambda>col. wins_by_drop board col (opponent_of aiPlayer)) availableMoves = []"
        by (simp add: find_filter_None)
      show ?thesis
        by (simp add: getMediumMove_def n1 None f1 f2 c)
    qed
  qed
qed

lemma hard_loop_mem:
  "snd (hard_loop board aiPlayer opponent depth availableMoves best) \<in> insert (snd best) (set availableMoves)"
proof (induction availableMoves arbitrary: best)
  case Nil
  show ?case by simp
next
  case (Cons col rest)
  obtain bestScore bestMove where b: "best = (bestScore, bestMove)" by (cases best)
  show ?case
    using Cons.IH[of "(bestScore, bestMove)"]
      Cons.IH[of "(minimax (fst (dropDisc (cloneBoard board) col aiPlayer)) (depth - 1) False aiPlayer opponent NegInf PosInf, col)"]
    by (auto simp: b Let_def)
qed

lemma getHardMove_mem:
  assumes "availableMoves \<noteq> []"
  shows "getHardMove board availableMoves aiPlayer depth \<in> set availableMoves"
proof -
  from assms have "availableMoves ! 0 \<in> set availableMoves" by simp
  with hard_loop_mem[of board aiPlayer "opponent_of aiPlayer" depth availableMoves "(NegInf, availableMoves ! 0)"]
  show ?thesis by (auto simp: getHardMove_def Let_def)
qed

lemma getMediumMove_mem:
  assumes "availableMoves \<noteq> []" "\<forall>col\<in>set availableMoves. 0 \<le> col \<and> col < COLS"
  shows "getMediumMove board availableMoves aiPlayer rnd \<in> set availableMoves"
proof -
  from center_find[OF assms] obtain c where c: "find (\<lambda>col. col \<in> set availableMoves) centerOrder = Some c"
    by blast
  then have cm: "c \<in> set availableMoves" by (auto dest: find_mem)
  have h: "xs \<noteq> [] \<Longrightarrow> hd (filter P xs) \<in> set xs \<or> filter P xs = []" for P and xs :: "int list"
    using hd_in_set[of "filter P xs"] by auto
  show ?thesis
    unfolding getMediumMove_cases[OF assms] c
    using cm h[OF assms(1)] by auto
qed

lemma getAIMove_in_moves:
  assumes "getAvailableMoves board \<noteq> []" "0 \<le> rnd" "rnd < 1"
  shows "getAIMove board difficulty aiPlayer rnd \<in> set (getAvailableMoves board)"
proof -
  have rng: "\<forall>col\<in>set (getAvailableMoves board). 0 \<le> col \<and> col < COLS"
    by (simp add: getAvailableMoves_range)
  show ?thesis
    using assms(1) getEasyMove_mem[OF assms] getMediumMove_mem[OF assms(1) rng]
      getHardMove_mem[OF assms(1)]
    by (simp add: getAIMove_def Let_def)
qed

text \<open>
  Claim C4. On a 6 by 7 board, for every difficulty string (\<open>easy\<close>, \<open>medium\<close>,
  \<open>hard\<close> or any other), every player number and every random number from 0 up to
  but not including 1: if some column is not full, \<open>getAIMove\<close> returns a member of
  \<open>getAvailableMoves(board)\<close>, so a column that is not full; it returns \<open>-1\<close> exactly
  when \<open>getAvailableMoves(board)\<close> is empty, that is when every column is full.
\<close>

theorem getAIMove_legal:
  assumes "wf_board board" "0 \<le> rnd" "rnd < 1"
  shows "((\<exists>col. \<not> isColumnFull board col) \<longrightarrow>
            getAIMove board difficulty aiPlayer rnd \<in> set (getAvailableMoves board)
          \<and> \<not> isColumnFull board (getAIMove board difficulty aiPlayer rnd))
       \<and> (getAIMove board difficulty aiPlayer rnd = -1 \<longleftrightarrow> getAvailableMoves board = [])
       \<and> (getAvailableMoves board = [] \<longleftrightarrow> (\<forall>col. isColumnFull board col))"
proof (cases "getAvailableMoves board = []")
  case True
  then show ?thesis
    by (simp add: getAIMove_def getAvailableMoves_empty)
next
  case False
  have rng: "\<forall>col\<in>set (getAvailableMoves board). 0 \<le> col \<and> col < COLS"
    by (simp add: getAvailableMoves_range)
  have m: "getAIMove board difficulty aiPlayer rnd \<in> set (getAvailableMoves board)"
    using False getEasyMove_mem[OF False assms(2,3)] getMediumMove_mem[OF False rng]
      getHardMove_mem[OF False]
    by (simp add: getAIMove_def Let_def)
  then have "\<not> isColumnFull board (getAIMove board difficulty aiPlayer rnd)"
    by (simp add: set_getAvailableMoves)
  moreover from m rng have "getAIMove board difficulty aiPlayer rnd \<noteq> -1"
    by auto
  ultimately show ?thesis
    using m False by (simp add: getAvailableMoves_empty)
qed

text \<open>The search tier on a position with open columns.\<close>

theorem getAIMove_legal_witness:
  "wf_board three_in_row_board \<and> (0::real) \<le> 1 / 2 \<and> (1 / 2 :: real) < 1
   \<and> (\<exists>col. \<not> isColumnFull three_in_row_board col)
   \<and> getAIMove three_in_row_board ''hard'' 2 (1 / 2) \<in> set (getAvailableMoves three_in_row_board)
   \<and> getAIMove three_in_row_board ''hard'' 2 (1 / 2) \<noteq> -1"
proof -
  have wf: "wf_board three_in_row_board"
    by code_simp
  have "\<not> isColumnFull three_in_row_board 0"
    by code_simp
  then have ex: "\<exists>col. \<not> isColumnFull three_in_row_board col"
    by blast
  have r: "(0::real) \<le> 1 / 2" "(1 / 2 :: real) < 1"
    by simp_all
  note legal = getAIMove_legal[OF wf r, of "''hard''" 2]
  from legal ex
  have m: "getAIMove three_in_row_board ''hard'' 2 (1 / 2) \<in> set (getAvailableMoves three_in_row_board)"
    by blast
  from legal ex have "getAIMove three_in_row_board ''hard'' 2 (1 / 2) \<noteq> -1"
    by blast
  with wf r ex m show ?thesis
    by blast
qed

text \<open>
  Claim C5. On a 6 by 7 board the greedy tier (\<open>getAIMove\<close> with \<open>medium\<close>) returns:
  the lowest legal column in which a disc of the side wins at once, when there is one;
  otherwise the lowest legal column in which a disc of the opponent would win at once,
  when there is one; and only when there is neither, the first column of the order
  3, 2, 4, 1, 5, 0, 6 that is legal. The win test comes first whether or not a block
  exists.
\<close>

theorem greedy_priorities:
  assumes "wf_board board"
  shows "(winning_columns board side \<noteq> [] \<longrightarrow>
            getAIMove board ''medium'' side rnd = hd (winning_columns board side)
          \<and> getAIMove board ''medium'' side rnd \<in> set (getAvailableMoves board)
          \<and> wins_by_drop board (getAIMove board ''medium'' side rnd) side)
       \<and> (winning_columns board side = [] \<and> winning_columns board (opponent_of side) \<noteq> [] \<longrightarrow>
            getAIMove board ''medium'' side rnd = hd (winning_columns board (opponent_of side))
          \<and> getAIMove board ''medium'' side rnd \<in> set (getAvailableMoves board)
          \<and> wins_by_drop board (getAIMove board ''medium'' side rnd) (opponent_of side))
       \<and> (winning_columns board side = [] \<and> winning_columns board (opponent_of side) = []
            \<and> getAvailableMoves board \<noteq> [] \<longrightarrow>
            find (\<lambda>col. col \<in> set (getAvailableMoves board)) centerOrder
              = Some (getAIMove board ''medium'' side rnd))"
proof (cases "getAvailableMoves board = []")
  case True
  then show ?thesis by (simp add: winning_columns_def)
next
  case False
  have rng: "\<forall>col\<in>set (getAvailableMoves board). 0 \<le> col \<and> col < COLS"
    by (simp add: getAvailableMoves_range)
  have g: "getAIMove board ''medium'' side rnd = getMediumMove board (getAvailableMoves board) side rnd"
    using False by (simp add: getAIMove_def)
  have hdm: "xs \<noteq> [] \<Longrightarrow> filter P xs \<noteq> [] \<Longrightarrow> hd (filter P xs) \<in> set xs \<and> P (hd (filter P xs))"
    for P and xs :: "int list"
    using hd_in_set[of "filter P xs"] by auto
  from center_find[OF False rng] obtain c
    where c: "find (\<lambda>col. col \<in> set (getAvailableMoves board)) centerOrder = Some c"
    by blast
  note c' = c
  show ?thesis
    unfolding g getMediumMove_cases[OF False rng] winning_columns_def c
    using hdm[OF False] c' by auto
qed

text \<open>
  Yellow wins in column 6 although Red threatens in column 3; with only Red's threat
  on the board, Yellow blocks column 3.
\<close>

theorem greedy_priorities_witness:
  "wf_board win_or_block_board
   \<and> winning_columns win_or_block_board 2 = [6]
   \<and> winning_columns win_or_block_board (opponent_of 2) = [3]
   \<and> getAIMove win_or_block_board ''medium'' 2 (1 / 2) = 6
   \<and> wf_board three_in_row_board
   \<and> winning_columns three_in_row_board 2 = []
   \<and> winning_columns three_in_row_board (opponent_of 2) = [3]
   \<and> getAIMove three_in_row_board ''medium'' 2 (1 / 2) = 3"
proof -
  have wf1: "wf_board win_or_block_board"
    by code_simp
  have w1: "winning_columns win_or_block_board 2 = [6]"
    by code_simp
  have b1: "winning_columns win_or_block_board (opponent_of 2) = [3]"
    by code_simp
  from greedy_priorities[OF wf1, of 2 "1 / 2"] w1
  have g1: "getAIMove win_or_block_board ''medium'' 2 (1 / 2) = 6"
    by simp
  have wf2: "wf_board three_in_row_board"
    by code_simp
  have w2: "winning_columns three_in_row_board 2 = []"
    by code_simp
  have b2: "winning_columns three_in_row_board (opponent_of 2) = [3]"
    by code_simp
  from greedy_priorities[OF wf2, of 2 "1 / 2"] w2 b2
  have g2: "getAIMove three_in_row_board ''medium'' 2 (1 / 2) = 3"
    by simp
  from wf1 w1 b1 g1 wf2 w2 b2 g2 show ?thesis
    by blast
qed

section \<open>Lines of four and the win scan\<close>

lemma upto_1_3: "[1..WIN_LENGTH - 1] = [1, 2, 3]"
  by (simp add: WIN_LENGTH_def upto_rec1)

lemma forward_loop_count:
  "snd (forward_loop board r c dr dc p [1, 2, 3] (lin, n)) =
     (if hit board p (r + dr * 1) (c + dc * 1) then
        if hit board p (r + dr * 2) (c + dc * 2) then
          if hit board p (r + dr * 3) (c + dc * 3) then n + 3 else n + 2
        else n + 1
      else n)"
  by (simp add: hit_def Let_def)

lemma backward_loop_count:
  "snd (backward_loop board r c dr dc p [1, 2, 3] (lin, n)) =
     (if hit board p (r - dr * 1) (c - dc * 1) then
        if hit board p (r - dr * 2) (c - dc * 2) then
          if hit board p (r - dr * 3) (c - dc * 3) then n + 3 else n + 2
        else n + 1
      else n)"
  by (simp add: hit_def Let_def)

lemma check_direction_count:
  "WIN_LENGTH \<le> snd (check_direction board r c p d) \<longleftrightarrow>
     (hit board p (r + fst d * 1) (c + snd d * 1) \<and> hit board p (r + fst d * 2) (c + snd d * 2)
        \<and> hit board p (r + fst d * 3) (c + snd d * 3))
   \<or> (hit board p (r - fst d * 1) (c - snd d * 1) \<and> hit board p (r + fst d * 1) (c + snd d * 1)
        \<and> hit board p (r + fst d * 2) (c + snd d * 2))
   \<or> (hit board p (r - fst d * 2) (c - snd d * 2) \<and> hit board p (r - fst d * 1) (c - snd d * 1)
        \<and> hit board p (r + fst d * 1) (c + snd d * 1))
   \<or> (hit board p (r - fst d * 3) (c - snd d * 3) \<and> hit board p (r - fst d * 2) (c - snd d * 2)
        \<and> hit board p (r - fst d * 1) (c - snd d * 1))"
proof -
  obtain lin n where f: "forward_loop board r c (fst d) (snd d) p [1, 2, 3] ([(r, c)], 1) = (lin, n)"
    by (cases "forward_loop board r c (fst d) (snd d) p [1, 2, 3] ([(r, c)], 1)")
  have n: "n = (if hit board p (r + fst d * 1) (c + snd d * 1) then
        if hit board p (r + fst d * 2) (c + snd d * 2) then
          if hit board p (r + fst d * 3) (c + snd d * 3) then 4 else 3
        else 2
      else 1)"
    using forward_loop_count[of board r c "fst d" "snd d" p "[(r, c)]" 1, unfolded f] by simp
  have cd: "snd (check_direction board r c p d) =
     (if n < 4 then snd (backward_loop board r c (fst d) (snd d) p [1, 2, 3] (lin, n)) else n)"
    unfolding check_direction_def upto_1_3
    unfolding f Let_def WIN_LENGTH_def
    by (cases "n < 4") (simp_all only: snd_conv if_True if_False)
  show ?thesis
    unfolding cd backward_loop_count n WIN_LENGTH_def
    by (simp split: if_splits)
qed

lemma check_directions_win:
  "win (check_directions board r c p ds) \<longleftrightarrow>
     (\<exists>d\<in>set ds. WIN_LENGTH \<le> snd (check_direction board r c p d))"
  by (induction ds) (auto simp: Let_def)

lemma checkWin_win:
  "win (checkWin board r c p) \<longleftrightarrow>
     (\<exists>d\<in>set directions. WIN_LENGTH \<le> snd (check_direction board r c p d))"
  by (simp add: checkWin_def check_directions_win)

lemma has_fourI:
  assumes "d \<in> set directions" "hit board p r c" "hit board p (r + fst d * 1) (c + snd d * 1)"
    "hit board p (r + fst d * 2) (c + snd d * 2)" "hit board p (r + fst d * 3) (c + snd d * 3)"
  shows "has_four board p"
proof -
  have "hit board p (r + fst d * k) (c + snd d * k)" if "k \<in> {0..<WIN_LENGTH}" for k
  proof -
    from that have "k = 0 \<or> k = 1 \<or> k = 2 \<or> k = 3"
      by (auto simp: WIN_LENGTH_def)
    with assms show ?thesis by auto
  qed
  moreover from assms(2) have "r \<in> {0..<ROWS}" "c \<in> {0..<COLS}"
    by (auto simp: hit_def)
  ultimately show ?thesis
    using assms(1) unfolding has_four_def by blast
qed

lemma has_fourE:
  assumes "has_four board p"
  obtains r c d where "d \<in> set directions" "hit board p r c"
    "hit board p (r + fst d * 1) (c + snd d * 1)"
    "hit board p (r + fst d * 2) (c + snd d * 2)" "hit board p (r + fst d * 3) (c + snd d * 3)"
proof -
  from assms obtain r c d where d: "d \<in> set directions"
    and h: "\<forall>k\<in>{0..<WIN_LENGTH}. hit board p (r + fst d * k) (c + snd d * k)"
    unfolding has_four_def by blast
  have "(0::int) \<in> {0..<WIN_LENGTH}" "(1::int) \<in> {0..<WIN_LENGTH}"
    "(2::int) \<in> {0..<WIN_LENGTH}" "(3::int) \<in> {0..<WIN_LENGTH}"
    by (simp_all add: WIN_LENGTH_def)
  with h have "hit board p (r + fst d * 0) (c + snd d * 0)" "hit board p (r + fst d * 1) (c + snd d * 1)"
    "hit board p (r + fst d * 2) (c + snd d * 2)" "hit board p (r + fst d * 3) (c + snd d * 3)"
    by blast+
  with d that show ?thesis by simp
qed

lemma anchor_has_four:
  assumes "hit board p r c" "win (checkWin board r c p)"
  shows "has_four board p"
proof -
  from assms(2) obtain d where d: "d \<in> set directions"
    and w: "WIN_LENGTH \<le> snd (check_direction board r c p d)"
    by (auto simp: checkWin_win)
  from w consider
      (a) "hit board p (r + fst d * 1) (c + snd d * 1)" "hit board p (r + fst d * 2) (c + snd d * 2)"
          "hit board p (r + fst d * 3) (c + snd d * 3)"
    | (b) "hit board p (r - fst d * 1) (c - snd d * 1)" "hit board p (r + fst d * 1) (c + snd d * 1)"
          "hit board p (r + fst d * 2) (c + snd d * 2)"
    | (c) "hit board p (r - fst d * 2) (c - snd d * 2)" "hit board p (r - fst d * 1) (c - snd d * 1)"
          "hit board p (r + fst d * 1) (c + snd d * 1)"
    | (d) "hit board p (r - fst d * 3) (c - snd d * 3)" "hit board p (r - fst d * 2) (c - snd d * 2)"
          "hit board p (r - fst d * 1) (c - snd d * 1)"
    unfolding check_direction_count by blast
  then show ?thesis
  proof cases
    case a
    with assms(1) d show ?thesis by (intro has_fourI[of d board p r c]) auto
  next
    case b
    with assms(1) d show ?thesis
      by (intro has_fourI[of d board p "r - fst d * 1" "c - snd d * 1"]) (auto simp: algebra_simps)
  next
    case c
    with assms(1) d show ?thesis
      by (intro has_fourI[of d board p "r - fst d * 2" "c - snd d * 2"]) (auto simp: algebra_simps)
  next
    case d
    with assms(1) \<open>d \<in> set directions\<close> show ?thesis
      by (intro has_fourI[of d board p "r - fst d * 3" "c - snd d * 3"]) (auto simp: algebra_simps)
  qed
qed

lemma has_four_anchor:
  assumes "has_four board p"
  shows "\<exists>r c. hit board p r c \<and> win (checkWin board r c p)"
proof -
  from assms obtain r c d where d: "d \<in> set directions" and h: "hit board p r c"
    "hit board p (r + fst d * 1) (c + snd d * 1)"
    "hit board p (r + fst d * 2) (c + snd d * 2)" "hit board p (r + fst d * 3) (c + snd d * 3)"
    by (rule has_fourE)
  then have "WIN_LENGTH \<le> snd (check_direction board r c p d)"
    unfolding check_direction_count by blast
  with d have "win (checkWin board r c p)"
    by (auto simp: checkWin_win)
  with h(1) show ?thesis by blast
qed

lemma all_cells_set:
  "(r, c) \<in> set (List.product [0..ROWS - 1] [0..COLS - 1]) \<longleftrightarrow>
     0 \<le> r \<and> r < ROWS \<and> 0 \<le> c \<and> c < COLS"
  by auto

lemma win_scan_NoWin:
  "win_scan board p q cells = NoWin \<longleftrightarrow>
     (\<forall>(r, c)\<in>set cells. \<not> (cell board r c = p \<and> win (checkWin board r c p))
                          \<and> \<not> (cell board r c = q \<and> win (checkWin board r c q)))"
  by (induction board p q cells rule: win_scan.induct) simp_all

lemma win_scan_PlayerWins:
  "win_scan board p q cells = PlayerWins \<Longrightarrow>
     \<exists>(r, c)\<in>set cells. cell board r c = p \<and> win (checkWin board r c p)"
  by (induction cells) (auto split: if_splits)

lemma win_scan_OpponentWins:
  "win_scan board p q cells = OpponentWins \<Longrightarrow>
     \<exists>(r, c)\<in>set cells. cell board r c = q \<and> win (checkWin board r c q)"
  by (induction cells) (auto split: if_splits)

lemma has_four_iff_anchor:
  "has_four board p \<longleftrightarrow>
     (\<exists>(r, c)\<in>set (List.product [0..ROWS - 1] [0..COLS - 1]).
        cell board r c = p \<and> win (checkWin board r c p))"
proof
  assume "has_four board p"
  then obtain r c where "hit board p r c" "win (checkWin board r c p)"
    using has_four_anchor by blast
  then have "(r, c) \<in> set (List.product [0..ROWS - 1] [0..COLS - 1])" "cell board r c = p"
    "win (checkWin board r c p)"
    by (simp_all add: all_cells_set hit_def)
  then show "\<exists>(r, c)\<in>set (List.product [0..ROWS - 1] [0..COLS - 1]).
        cell board r c = p \<and> win (checkWin board r c p)"
    by blast
next
  assume "\<exists>(r, c)\<in>set (List.product [0..ROWS - 1] [0..COLS - 1]).
        cell board r c = p \<and> win (checkWin board r c p)"
  then obtain r c where rc: "(r, c) \<in> set (List.product [0..ROWS - 1] [0..COLS - 1])"
    "cell board r c = p" "win (checkWin board r c p)"
    by blast
  then have "hit board p r c"
    by (simp add: all_cells_set hit_def)
  then show "has_four board p"
    using rc(3) by (rule anchor_has_four)
qed

lemma win_scan_NoWin_iff:
  "win_scan board p q (List.product [0..ROWS - 1] [0..COLS - 1]) = NoWin \<longleftrightarrow>
     \<not> has_four board p \<and> \<not> has_four board q"
  unfolding win_scan_NoWin has_four_iff_anchor by blast

lemma win_scan_PlayerWins_iff:
  assumes "\<not> has_four board q"
  shows "win_scan board p q (List.product [0..ROWS - 1] [0..COLS - 1]) = PlayerWins \<longleftrightarrow>
     has_four board p"
proof -
  let ?cells = "List.product [0..ROWS - 1] [0..COLS - 1]"
  have pw: "win_scan board p q ?cells = PlayerWins \<Longrightarrow> has_four board p"
    unfolding has_four_iff_anchor by (rule win_scan_PlayerWins)
  have ow: "win_scan board p q ?cells = OpponentWins \<Longrightarrow> has_four board q"
    unfolding has_four_iff_anchor by (rule win_scan_OpponentWins)
  show ?thesis
    using assms pw ow win_scan_NoWin_iff[of board p q]
    by (cases "win_scan board p q ?cells") auto
qed

lemma win_scan_OpponentWins_iff:
  assumes "\<not> has_four board p"
  shows "win_scan board p q (List.product [0..ROWS - 1] [0..COLS - 1]) = OpponentWins \<longleftrightarrow>
     has_four board q"
proof -
  let ?cells = "List.product [0..ROWS - 1] [0..COLS - 1]"
  have pw: "win_scan board p q ?cells = PlayerWins \<Longrightarrow> has_four board p"
    unfolding has_four_iff_anchor by (rule win_scan_PlayerWins)
  have ow: "win_scan board p q ?cells = OpponentWins \<Longrightarrow> has_four board q"
    unfolding has_four_iff_anchor by (rule win_scan_OpponentWins)
  show ?thesis
    using assms pw ow win_scan_NoWin_iff[of board p q]
    by (cases "win_scan board p q ?cells") auto
qed

section \<open>Terminal positions in the search\<close>

text \<open>
  A disc of one side never completes a line of the other side. The search only places
  discs on positions without a line of four (\<open>minimax\<close> returns before its loops
  otherwise), so a position it reaches from a live game has a line of four for at most
  the side that moved last.
\<close>

lemma hit_dropDisc:
  assumes wf: "wf_board board" and pq: "p \<noteq> q" and h: "hit (fst (dropDisc board col q)) p r c"
  shows "hit board p r c"
proof (cases "getLowestEmptyRow board col = -1")
  case True
  with h show ?thesis by (simp add: dropDisc_fail)
next
  case False
  from h have rng: "0 \<le> r" "r < ROWS" "0 \<le> c" "c < COLS"
    and v: "cell (fst (dropDisc board col q)) r c = p"
    by (auto simp: hit_def)
  from dropDisc_ok(4)[OF wf False rng, of q] v pq have "cell board r c = p"
    by (auto split: if_splits)
  with rng show ?thesis by (simp add: hit_def)
qed

lemma dropDisc_no_new_four:
  assumes "wf_board board" "p \<noteq> q" "has_four (fst (dropDisc board col q)) p"
  shows "has_four board p"
  using assms(3) hit_dropDisc[OF assms(1,2)] unfolding has_four_def by blast

text \<open>
  Claim C6, as stated, fails at remaining depth 0 on a full board without a line of
  four: \<open>minimax\<close> tests \<open>depth === 0\<close> before it looks for a draw, and returns the
  evaluator's score, here -2, not 0. The full board is reached by the search itself:
  from the position with five empty cells in column 0 the five plies of the search fill
  the column, and the value -2 of the depth-0 call is the value of the first move.
\<close>

theorem minimax_draw_counterexample:
  "drop_all endgame_board [(0, 2), (0, 1), (0, 2), (0, 1), (0, 2)] = drawn_board
   \<and> wf_board drawn_board
   \<and> getAvailableMoves drawn_board = []
   \<and> \<not> has_four drawn_board 2 \<and> \<not> has_four drawn_board 1
   \<and> minimax drawn_board 0 False 2 1 NegInf PosInf = Fin (- 2)
   \<and> minimax (fst (dropDisc endgame_board 0 2)) 4 False 2 1 NegInf PosInf = Fin (- 2)"
proof -
  have "drop_all endgame_board [(0, 2), (0, 1), (0, 2), (0, 1), (0, 2)] = drawn_board"
    by code_simp
  moreover have "wf_board drawn_board"
    by code_simp
  moreover have "getAvailableMoves drawn_board = []"
    by code_simp
  moreover have "win_scan drawn_board 2 1 (List.product [0..ROWS - 1] [0..COLS - 1]) = NoWin"
    by code_simp
  then have "\<not> has_four drawn_board 2 \<and> \<not> has_four drawn_board 1"
    using win_scan_NoWin_iff by blast
  moreover have "minimax drawn_board 0 False 2 1 NegInf PosInf = Fin (- 2)"
    by code_simp
  moreover have "minimax (fst (dropDisc endgame_board 0 2)) 4 False 2 1 NegInf PosInf = Fin (- 2)"
    by code_simp
  ultimately show ?thesis
    by blast
qed

text \<open>
  Claim C6, amended. For a 6 by 7 board, the searching side and its opponent, and
  remaining depth \<open>d\<close>: if the board has a line of four of the searching side and none
  of the opponent, \<open>minimax\<close> returns \<open>10000 + d\<close>; if it has a line of four of the
  opponent and none of the searching side, it returns \<open>-10000 - d\<close>; if it has no line
  of four, no legal move remains and \<open>d > 0\<close>, it returns 0; and at \<open>d = 0\<close> it
  returns the evaluator's score for the searching side in every case.
\<close>

theorem minimax_terminal:
  assumes "wf_board board" "opponent = opponent_of aiPlayer"
  shows "(has_four board aiPlayer \<and> \<not> has_four board opponent \<longrightarrow>
            minimax board d isMaximizing aiPlayer opponent alpha beta = Fin (10000 + int d))
       \<and> (has_four board opponent \<and> \<not> has_four board aiPlayer \<longrightarrow>
            minimax board d isMaximizing aiPlayer opponent alpha beta = Fin (- 10000 - int d))
       \<and> (\<not> has_four board aiPlayer \<and> \<not> has_four board opponent
            \<and> getAvailableMoves board = [] \<and> 0 < d \<longrightarrow>
            minimax board d isMaximizing aiPlayer opponent alpha beta = Fin 0)
       \<and> (d = 0 \<longrightarrow>
            minimax board d isMaximizing aiPlayer opponent alpha beta
              = Fin (evaluateBoard board aiPlayer))"
proof (cases d)
  case 0
  have "evaluateBoard board aiPlayer = 10000"
    if "has_four board aiPlayer" "\<not> has_four board opponent"
    using that win_scan_PlayerWins_iff[of board opponent aiPlayer]
    by (simp add: evaluateBoard_def assms(2)[symmetric])
  moreover have "evaluateBoard board aiPlayer = - 10000"
    if "has_four board opponent" "\<not> has_four board aiPlayer"
    using that win_scan_OpponentWins_iff[of board aiPlayer opponent]
    by (simp add: evaluateBoard_def assms(2)[symmetric])
  ultimately show ?thesis
    using 0 by auto
next
  case (Suc n)
  have "minimax board (Suc n) isMaximizing aiPlayer opponent alpha beta = Fin (10000 + int (Suc n))"
    if "has_four board aiPlayer" "\<not> has_four board opponent"
    using that win_scan_PlayerWins_iff[of board opponent aiPlayer] by simp
  moreover
  have "minimax board (Suc n) isMaximizing aiPlayer opponent alpha beta = Fin (- 10000 - int (Suc n))"
    if "has_four board opponent" "\<not> has_four board aiPlayer"
    using that win_scan_OpponentWins_iff[of board aiPlayer opponent] by simp
  moreover
  have "minimax board (Suc n) isMaximizing aiPlayer opponent alpha beta = Fin 0"
    if "\<not> has_four board aiPlayer" "\<not> has_four board opponent" "getAvailableMoves board = []"
    using that win_scan_NoWin_iff[of board aiPlayer opponent] by simp
  ultimately show ?thesis
    using Suc by auto
qed

text \<open>
  Red's line in the bottom row, three plies from the horizon, is worth 10003 to Red;
  the full board without a line, two plies from the horizon, is worth 0.
\<close>

theorem minimax_terminal_witness:
  "wf_board (drop_all createBoard [(0, 1), (6, 2), (1, 1), (6, 2), (2, 1), (6, 2), (3, 1)])
   \<and> (2::int) = opponent_of 1
   \<and> has_four (drop_all createBoard [(0, 1), (6, 2), (1, 1), (6, 2), (2, 1), (6, 2), (3, 1)]) 1
   \<and> \<not> has_four (drop_all createBoard [(0, 1), (6, 2), (1, 1), (6, 2), (2, 1), (6, 2), (3, 1)]) 2
   \<and> minimax (drop_all createBoard [(0, 1), (6, 2), (1, 1), (6, 2), (2, 1), (6, 2), (3, 1)])
        3 False 1 2 NegInf PosInf = Fin 10003
   \<and> wf_board drawn_board \<and> (1::int) = opponent_of 2
   \<and> \<not> has_four drawn_board 2 \<and> \<not> has_four drawn_board 1
   \<and> getAvailableMoves drawn_board = [] \<and> (0::nat) < 2
   \<and> minimax drawn_board 2 True 2 1 NegInf PosInf = Fin 0"
proof -
  let ?b = "drop_all createBoard [(0, 1), (6, 2), (1, 1), (6, 2), (2, 1), (6, 2), (3, 1)]"
  have wf: "wf_board ?b"
    by code_simp
  have o: "(2::int) = opponent_of 1"
    by (simp add: opponent_of_def)
  have "win_scan ?b 2 2 (List.product [0..ROWS - 1] [0..COLS - 1]) = NoWin"
    by code_simp
  then have n2: "\<not> has_four ?b 2"
    using win_scan_NoWin_iff by blast
  have "win_scan ?b 1 2 (List.product [0..ROWS - 1] [0..COLS - 1]) = PlayerWins"
    by code_simp
  then have f1: "has_four ?b 1"
    using win_scan_PlayerWins_iff[OF n2] by blast
  from minimax_terminal[OF wf o, of 3 False NegInf PosInf] f1 n2
  have m1: "minimax ?b 3 False 1 2 NegInf PosInf = Fin 10003"
    by simp
  have wf': "wf_board drawn_board"
    by code_simp
  have o': "(1::int) = opponent_of 2"
    by (simp add: opponent_of_def)
  have "win_scan drawn_board 2 1 (List.product [0..ROWS - 1] [0..COLS - 1]) = NoWin"
    by code_simp
  then have nf: "\<not> has_four drawn_board 2" "\<not> has_four drawn_board 1"
    using win_scan_NoWin_iff by blast+
  have av: "getAvailableMoves drawn_board = []"
    by code_simp
  from minimax_terminal[OF wf' o', of 2 True NegInf PosInf] nf av
  have m2: "minimax drawn_board 2 True 2 1 NegInf PosInf = Fin 0"
    by simp
  from wf o f1 n2 m1 wf' o' nf av m2 show ?thesis
    by simp
qed

section \<open>Game session\<close>

lemma not_full_drop_succeeds:
  assumes "\<not> isColumnFull board col"
  shows "getLowestEmptyRow board col \<noteq> -1"
proof -
  from assms have "0 \<le> col" "col < COLS" "cell board 0 col = 0"
    by (auto simp: isColumnFull_def split: if_splits)
  moreover have "(0::int) \<in> {0..<ROWS}"
    by (simp add: ROWS_def)
  ultimately show ?thesis
    unfolding getLowestEmptyRow_full by auto
qed

lemma makeMove_complete:
  assumes "\<not> isAnimating s" "getLowestEmptyRow (currentBoard s) col \<noteq> -1"
  shows "currentBoard (makeMove s col player now) = fst (dropDisc (currentBoard s) col player)"
    and "undoStack (makeMove s col player now) = undoStack s @
          [\<lparr>saved_board = currentBoard s, saved_player = currentPlayer s,
            saved_moveHistoryLength = length (moveHistory s)\<rparr>]"
    and "moveHistory (makeMove s col player now) = moveHistory s @
          [createMoveObject (length (moveHistory s) + 1) player col
             (getLowestEmptyRow (currentBoard s) col) None None
             (Some (fst (dropDisc (currentBoard s) col player))) now]"
    and "\<not> isAnimating (makeMove s col player now)"
  using assms
  by (simp_all add: makeMove_def Let_def dropDisc_success_iff handleGameOver_def dropDisc_def)

lemma makeAIMove_complete:
  assumes "isGameActive s" "\<not> isAnimating s" "currentPlayer s = 2"
    and "aiCol = getAIMove (currentBoard s) (aiDifficulty s) 2 rnd"
    and "aiCol \<noteq> -1" "\<not> isColumnFull (currentBoard s) aiCol"
  shows "currentBoard (makeAIMove s rnd emoji reaction now) = fst (dropDisc (currentBoard s) aiCol 2)"
    and "undoStack (makeAIMove s rnd emoji reaction now) = undoStack s @
          [\<lparr>saved_board = currentBoard s, saved_player = currentPlayer s,
            saved_moveHistoryLength = length (moveHistory s)\<rparr>]"
    and "moveHistory (makeAIMove s rnd emoji reaction now) = moveHistory s @
          [createMoveObject (length (moveHistory s) + 1) 2 aiCol
             (getLowestEmptyRow (currentBoard s) aiCol) (Some emoji) (Some reaction)
             (Some (fst (dropDisc (currentBoard s) aiCol 2))) now]"
    and "\<not> isAnimating (makeAIMove s rnd emoji reaction now)"
proof -
  from assms(6) have ne: "getLowestEmptyRow (currentBoard s) aiCol \<noteq> -1"
    by (rule not_full_drop_succeeds)
  then have ok: "success (snd (dropDisc (currentBoard s) aiCol 2))"
    and r: "row (snd (dropDisc (currentBoard s) aiCol 2)) = getLowestEmptyRow (currentBoard s) aiCol"
    by (simp_all add: dropDisc_def Let_def)
  show "currentBoard (makeAIMove s rnd emoji reaction now) = fst (dropDisc (currentBoard s) aiCol 2)"
    using assms ok by (simp add: makeAIMove_def Let_def handleGameOver_def)
  show "undoStack (makeAIMove s rnd emoji reaction now) = undoStack s @
          [\<lparr>saved_board = currentBoard s, saved_player = currentPlayer s,
            saved_moveHistoryLength = length (moveHistory s)\<rparr>]"
    using assms ok by (simp add: makeAIMove_def Let_def handleGameOver_def)
  show "moveHistory (makeAIMove s rnd emoji reaction now) = moveHistory s @
          [createMoveObject (length (moveHistory s) + 1) 2 aiCol
             (getLowestEmptyRow (currentBoard s) aiCol) (Some emoji) (Some reaction)
             (Some (fst (dropDisc (currentBoard s) aiCol 2))) now]"
    using assms ok r by (simp add: makeAIMove_def Let_def handleGameOver_def)
  show "\<not> isAnimating (makeAIMove s rnd emoji reaction now)"
    using assms ok by (simp add: makeAIMove_def Let_def handleGameOver_def)
qed

text \<open>
  \<open>makeMove\<close> pushes the undo checkpoint before it drops the disc, and does not take
  it back when the drop fails. \<open>handleColumnClick\<close>, its only caller, has rejected a
  full column by then, so this branch is not taken in a game.
\<close>

lemma makeMove_full_column:
  assumes "\<not> isAnimating s" "getLowestEmptyRow (currentBoard s) col = -1"
  shows "makeMove s col player now =
     s\<lparr>undoStack := undoStack s @
          [\<lparr>saved_board = currentBoard s, saved_player = currentPlayer s,
            saved_moveHistoryLength = length (moveHistory s)\<rparr>]\<rparr>"
  using assms by (simp add: makeMove_def Let_def dropDisc_fail)

text \<open>
  Claim C7. A click on a column (\<open>handleColumnClick\<close>) that is rejected, because no
  game is active, an animation runs, it is the AI's turn in a game against the AI, or
  the column is full or off the board, leaves the whole session as it was: board,
  side to move, move log and undo stack included. A click that is not rejected makes a
  complete move: the disc is dropped, one checkpoint is pushed and one move is logged;
  the drop cannot fail there. The same holds for an AI move (\<open>makeAIMove\<close>), which is
  rejected when no game is active, an animation runs, it is not the AI's turn, or no
  column is legal.
\<close>

theorem rejected_move_leaves_session:
  assumes "wf_board (currentBoard s)" "0 \<le> rnd" "rnd < 1"
  shows "(if \<not> isGameActive s \<or> isAnimating s \<or> (gameMode s = ''ai'' \<and> currentPlayer s = 2)
             \<or> isColumnFull (currentBoard s) col
          then handleColumnClick s col now = s
          else success (snd (dropDisc (currentBoard s) col (currentPlayer s)))
             \<and> currentBoard (handleColumnClick s col now)
                 = fst (dropDisc (currentBoard s) col (currentPlayer s))
             \<and> undoStack (handleColumnClick s col now) = undoStack s @
                  [\<lparr>saved_board = currentBoard s, saved_player = currentPlayer s,
                    saved_moveHistoryLength = length (moveHistory s)\<rparr>]
             \<and> length (moveHistory (handleColumnClick s col now)) = length (moveHistory s) + 1)
       \<and> (if \<not> isGameActive s \<or> isAnimating s \<or> currentPlayer s \<noteq> 2
             \<or> getAvailableMoves (currentBoard s) = []
          then makeAIMove s rnd emoji reaction now = s
          else success (snd (dropDisc (currentBoard s)
                              (getAIMove (currentBoard s) (aiDifficulty s) 2 rnd) 2))
             \<and> currentBoard (makeAIMove s rnd emoji reaction now)
                 = fst (dropDisc (currentBoard s) (getAIMove (currentBoard s) (aiDifficulty s) 2 rnd) 2)
             \<and> undoStack (makeAIMove s rnd emoji reaction now) = undoStack s @
                  [\<lparr>saved_board = currentBoard s, saved_player = currentPlayer s,
                    saved_moveHistoryLength = length (moveHistory s)\<rparr>]
             \<and> length (moveHistory (makeAIMove s rnd emoji reaction now)) = length (moveHistory s) + 1)"
proof -
  have human: "handleColumnClick s col now = s"
    if "\<not> isGameActive s \<or> isAnimating s \<or> (gameMode s = ''ai'' \<and> currentPlayer s = 2)
         \<or> isColumnFull (currentBoard s) col"
    using that by (auto simp: handleColumnClick_def)
  have human': "success (snd (dropDisc (currentBoard s) col (currentPlayer s)))
             \<and> currentBoard (handleColumnClick s col now)
                 = fst (dropDisc (currentBoard s) col (currentPlayer s))
             \<and> undoStack (handleColumnClick s col now) = undoStack s @
                  [\<lparr>saved_board = currentBoard s, saved_player = currentPlayer s,
                    saved_moveHistoryLength = length (moveHistory s)\<rparr>]
             \<and> length (moveHistory (handleColumnClick s col now)) = length (moveHistory s) + 1"
    if n: "\<not> (\<not> isGameActive s \<or> isAnimating s \<or> (gameMode s = ''ai'' \<and> currentPlayer s = 2)
         \<or> isColumnFull (currentBoard s) col)"
  proof -
    from n have h: "handleColumnClick s col now = makeMove s col (currentPlayer s) now"
      by (auto simp: handleColumnClick_def)
    from n have a: "\<not> isAnimating s" by simp
    from n have ne: "getLowestEmptyRow (currentBoard s) col \<noteq> -1"
      by (simp add: not_full_drop_succeeds)
    show ?thesis
      unfolding h using makeMove_complete[OF a ne, of "currentPlayer s" now] ne
      by (simp add: dropDisc_success_iff)
  qed
  have ai: "makeAIMove s rnd emoji reaction now = s"
    if "\<not> isGameActive s \<or> isAnimating s \<or> currentPlayer s \<noteq> 2
         \<or> getAvailableMoves (currentBoard s) = []"
  proof (cases "\<not> isGameActive s \<or> isAnimating s \<or> currentPlayer s \<noteq> 2")
    case True
    then show ?thesis by (auto simp: makeAIMove_def)
  next
    case False
    with that have "getAvailableMoves (currentBoard s) = []" by simp
    then have "getAIMove (currentBoard s) (aiDifficulty s) 2 rnd = -1"
      by (simp add: getAIMove_def)
    with False show ?thesis by (simp add: makeAIMove_def Let_def)
  qed
  have ai': "success (snd (dropDisc (currentBoard s)
                              (getAIMove (currentBoard s) (aiDifficulty s) 2 rnd) 2))
             \<and> currentBoard (makeAIMove s rnd emoji reaction now)
                 = fst (dropDisc (currentBoard s) (getAIMove (currentBoard s) (aiDifficulty s) 2 rnd) 2)
             \<and> undoStack (makeAIMove s rnd emoji reaction now) = undoStack s @
                  [\<lparr>saved_board = currentBoard s, saved_player = currentPlayer s,
                    saved_moveHistoryLength = length (moveHistory s)\<rparr>]
             \<and> length (moveHistory (makeAIMove s rnd emoji reaction now)) = length (moveHistory s) + 1"
    if n: "\<not> (\<not> isGameActive s \<or> isAnimating s \<or> currentPlayer s \<noteq> 2
         \<or> getAvailableMoves (currentBoard s) = [])"
  proof -
    let ?c = "getAIMove (currentBoard s) (aiDifficulty s) 2 rnd"
    from n have g: "isGameActive s" "\<not> isAnimating s" "currentPlayer s = 2"
      and m: "getAvailableMoves (currentBoard s) \<noteq> []"
      by auto
    from getAIMove_in_moves[OF m assms(2,3)]
    have mem: "?c \<in> set (getAvailableMoves (currentBoard s))" .
    then have nf: "\<not> isColumnFull (currentBoard s) ?c"
      by (simp add: set_getAvailableMoves)
    from mem getAvailableMoves_range[OF mem] have n1: "?c \<noteq> -1"
      by auto
    from nf have ne: "getLowestEmptyRow (currentBoard s) ?c \<noteq> -1"
      by (rule not_full_drop_succeeds)
    show ?thesis
      using makeAIMove_complete[OF g refl n1 nf, of emoji reaction now] ne
      by (simp add: dropDisc_success_iff)
  qed
  show ?thesis
  proof (intro conjI)
    show "if \<not> isGameActive s \<or> isAnimating s \<or> (gameMode s = ''ai'' \<and> currentPlayer s = 2)
             \<or> isColumnFull (currentBoard s) col
          then handleColumnClick s col now = s
          else success (snd (dropDisc (currentBoard s) col (currentPlayer s)))
             \<and> currentBoard (handleColumnClick s col now)
                 = fst (dropDisc (currentBoard s) col (currentPlayer s))
             \<and> undoStack (handleColumnClick s col now) = undoStack s @
                  [\<lparr>saved_board = currentBoard s, saved_player = currentPlayer s,
                    saved_moveHistoryLength = length (moveHistory s)\<rparr>]
             \<and> length (moveHistory (handleColumnClick s col now)) = length (moveHistory s) + 1"
    proof (cases "\<not> isGameActive s \<or> isAnimating s \<or> (gameMode s = ''ai'' \<and> currentPlayer s = 2)
             \<or> isColumnFull (currentBoard s) col")
      case True
      show ?thesis by (rule iffD2[OF if_P[OF True] human[OF True]])
    next
      case False
      show ?thesis by (rule iffD2[OF if_not_P[OF False] human'[OF False]])
    qed
    show "if \<not> isGameActive s \<or> isAnimating s \<or> currentPlayer s \<noteq> 2
             \<or> getAvailableMoves (currentBoard s) = []
          then makeAIMove s rnd emoji reaction now = s
          else success (snd (dropDisc (currentBoard s)
                              (getAIMove (currentBoard s) (aiDifficulty s) 2 rnd) 2))
             \<and> currentBoard (makeAIMove s rnd emoji reaction now)
                 = fst (dropDisc (currentBoard s) (getAIMove (currentBoard s) (aiDifficulty s) 2 rnd) 2)
             \<and> undoStack (makeAIMove s rnd emoji reaction now) = undoStack s @
                  [\<lparr>saved_board = currentBoard s, saved_player = currentPlayer s,
                    saved_moveHistoryLength = length (moveHistory s)\<rparr>]
             \<and> length (moveHistory (makeAIMove s rnd emoji reaction now)) = length (moveHistory s) + 1"
    proof (cases "\<not> isGameActive s \<or> isAnimating s \<or> currentPlayer s \<noteq> 2
             \<or> getAvailableMoves (currentBoard s) = []")
      case True
      show ?thesis by (rule iffD2[OF if_P[OF True] ai[OF True]])
    next
      case False
      show ?thesis by (rule iffD2[OF if_not_P[OF False] ai'[OF False]])
    qed
  qed
qed

text \<open>
  After six clicks on column 6 a seventh click there changes nothing, and neither does
  a request for an AI move while it is Red's turn.
\<close>

theorem rejected_move_leaves_session_witness:
  "wf_board (currentBoard full_column_session) \<and> (0::real) \<le> 1 / 2 \<and> (1 / 2 :: real) < 1
   \<and> isGameActive full_column_session
   \<and> isColumnFull (currentBoard full_column_session) 6
   \<and> length (undoStack full_column_session) = 6
   \<and> currentPlayer full_column_session \<noteq> 2
   \<and> handleColumnClick full_column_session 6 7 = full_column_session
   \<and> makeAIMove full_column_session (1 / 2) ''smile'' ''Nice move!'' 7 = full_column_session"
proof -
  have wf: "wf_board (currentBoard full_column_session)"
    by code_simp
  have r: "(0::real) \<le> 1 / 2" "(1 / 2 :: real) < 1"
    by simp_all
  have a: "isGameActive full_column_session"
    by code_simp
  have f: "isColumnFull (currentBoard full_column_session) 6"
    by code_simp
  have u: "length (undoStack full_column_session) = 6"
    by code_simp
  have p: "currentPlayer full_column_session \<noteq> 2"
    by code_simp
  note spec = rejected_move_leaves_session[OF wf r, where col = 6 and now = 7
      and emoji = "''smile''" and reaction = "''Nice move!''"]
  from f have c1: "\<not> isGameActive full_column_session \<or> isAnimating full_column_session
      \<or> (gameMode full_column_session = ''ai'' \<and> currentPlayer full_column_session = 2)
      \<or> isColumnFull (currentBoard full_column_session) 6"
    by blast
  from p have c2: "\<not> isGameActive full_column_session \<or> isAnimating full_column_session
      \<or> currentPlayer full_column_session \<noteq> 2
      \<or> getAvailableMoves (currentBoard full_column_session) = []"
    by blast
  have h: "handleColumnClick full_column_session 6 7 = full_column_session"
    by (rule spec[THEN conjunct1, unfolded if_P[OF c1]])
  have m: "makeAIMove full_column_session (1 / 2) ''smile'' ''Nice move!'' 7 = full_column_session"
    by (rule spec[THEN conjunct2, unfolded if_P[OF c2]])
  from wf r a f u p h m show ?thesis
    by blast
qed

end
